theory Spec2Isabelle
  imports Main "HOL-Library.Sublist"
begin

section \<open>Entity adapter\<close>

text \<open>
  The slice keeps its three collections in Redux Toolkit entity states: an array \<open>ids\<close>
  (insertion order) and a dictionary \<open>entities\<close> from id to entity. The adapters are
  unsorted. The operations below are the ones the slice calls.
\<close>

record 'v EntityState =
  ids :: "string list"
  entities :: "string \<rightharpoonup> 'v"

definition getInitialState :: "'v EntityState" where
  "getInitialState = \<lparr>ids = [], entities = Map.empty\<rparr>"

text \<open>
  \<open>addOne\<close>: an entity whose id is already present is ignored. The adapter's test is
  \<open>key in state.entities\<close> on a plain object, which holds for a stored id and for the
  property names every plain object inherits, \<open>objectPrototypeNames\<close> below. The ids of
  the hunk adapters are composite keys, which the spec builds with separators, so none
  of them is an inherited name, and for them the test is whether an entity is stored:
  that is \<open>addOne\<close>. The ids of the tree change adapter are raw paths, and a path can be
  an inherited name: \<open>addOnePlain\<close> is the operation with the whole test. The two agree
  on every id that is not inherited (lemma \<open>addOnePlain_addOne\<close>).
\<close>

definition addOne :: "('v \<Rightarrow> string) \<Rightarrow> 'v EntityState \<Rightarrow> 'v \<Rightarrow> 'v EntityState" where
  "addOne selectId st e =
     (let key = selectId e in
      case entities st key of
        Some _ \<Rightarrow> st
      | None \<Rightarrow> st\<lparr>ids := ids st @ [key], entities := (entities st)(key \<mapsto> e)\<rparr>)"

definition addMany :: "('v \<Rightarrow> string) \<Rightarrow> 'v EntityState \<Rightarrow> 'v list \<Rightarrow> 'v EntityState" where
  "addMany selectId st es = fold (\<lambda>e s. addOne selectId s e) es st"

text \<open>The property names of \<open>Object.prototype\<close>, which \<open>key in object\<close> finds in every plain object.\<close>

definition objectPrototypeNames :: "string list" where
  "objectPrototypeNames =
     [''constructor'', ''hasOwnProperty'', ''isPrototypeOf'', ''propertyIsEnumerable'',
      ''toLocaleString'', ''toString'', ''valueOf'', ''__proto__'', ''__defineGetter__'',
      ''__defineSetter__'', ''__lookupGetter__'', ''__lookupSetter__'']"

text \<open>
  \<open>addOnePlain\<close>, \<open>addManyPlain\<close>: \<open>addOne\<close> and \<open>addMany\<close> for any id. An entity whose id
  is stored, or is an inherited name, is ignored.
\<close>

definition addOnePlain :: "('v \<Rightarrow> string) \<Rightarrow> 'v EntityState \<Rightarrow> 'v \<Rightarrow> 'v EntityState" where
  "addOnePlain selectId st e =
     (let key = selectId e in
      if entities st key \<noteq> None \<or> key \<in> set objectPrototypeNames then st
      else st\<lparr>ids := ids st @ [key], entities := (entities st)(key \<mapsto> e)\<rparr>)"

definition addManyPlain ::
  "('v \<Rightarrow> string) \<Rightarrow> 'v EntityState \<Rightarrow> 'v list \<Rightarrow> 'v EntityState" where
  "addManyPlain selectId st es = fold (\<lambda>e s. addOnePlain selectId s e) es st"

text \<open>
  \<open>upsertOne\<close>: an existing entity is merged with the given one, field by field. Every
  call of the slice passes an entity with all its fields, so the merge is a replacement,
  and the id of the merged entity is the id it is stored under.
\<close>

definition upsertOne :: "('v \<Rightarrow> string) \<Rightarrow> 'v EntityState \<Rightarrow> 'v \<Rightarrow> 'v EntityState" where
  "upsertOne selectId st e =
     (let key = selectId e in
      case entities st key of
        Some _ \<Rightarrow> st\<lparr>entities := (entities st)(key \<mapsto> e)\<rparr>
      | None \<Rightarrow> addOne selectId st e)"

text \<open>
  \<open>removeMany\<close> deletes the given keys from the dictionary and, when at least one was
  present, keeps the ids that are still in the dictionary.
\<close>

definition removeMany :: "'v EntityState \<Rightarrow> string list \<Rightarrow> 'v EntityState" where
  "removeMany st keys =
     (let ents = (\<lambda>k. if k \<in> set keys then None else entities st k);
          didMutate = list_ex (\<lambda>k. entities st k \<noteq> None) keys
      in if didMutate
         then st\<lparr>ids := filter (\<lambda>k. ents k \<noteq> None) (ids st), entities := ents\<rparr>
         else st)"

definition removeOne :: "'v EntityState \<Rightarrow> string \<Rightarrow> 'v EntityState" where
  "removeOne st key = removeMany st [key]"

definition removeAll :: "'v EntityState \<Rightarrow> 'v EntityState" where
  "removeAll st = st\<lparr>ids := [], entities := Map.empty\<rparr>"

definition selectById :: "'v EntityState \<Rightarrow> string \<Rightarrow> 'v option" where
  "selectById st key = entities st key"

text \<open>
  \<open>selectAll\<close> reads the entities in the order of \<open>ids\<close>. An id with no entity does not
  arise from the adapter's operations; the model skips it.
\<close>

definition selectAll :: "'v EntityState \<Rightarrow> 'v list" where
  "selectAll st = List.map_filter (entities st) (ids st)"

definition startsWith :: "string \<Rightarrow> string \<Rightarrow> bool" where
  "startsWith s p = prefix p s"

text \<open>
  Modelled from the spec: \<open>createSelectByPrefix\<close> of \<open>$lib/state/customSelectors\<close> is not
  among the sources. The spec describes it as the prefix-range selection over the
  composite string keys: the entities whose id starts with the given prefix, in the
  order of \<open>ids\<close>.
\<close>

definition selectByPrefix :: "'v EntityState \<Rightarrow> string \<Rightarrow> 'v list" where
  "selectByPrefix st p = List.map_filter (entities st) (filter (\<lambda>k. startsWith k p) (ids st))"

section \<open>Data model of the uncommitted slice\<close>

text \<open>A line of a diff: its number in the old and in the new file, either may be absent.\<close>

record LineId =
  oldLine :: "nat option"
  newLine :: "nat option"

text \<open>
  The hunk header type \<open>'h\<close> and the status type \<open>'c\<close> of a tree change are declared
  outside the sources and stay type parameters. A null stack id, stable id or hunk
  header is \<open>None\<close>.
\<close>

record 'c TreeChange =
  tc_path :: string
  tc_status :: 'c

record 'h HunkAssignment =
  a_id :: "string option"
  a_stackId :: "string option"
  a_path :: string
  a_hunkHeader :: "'h option"

record HunkSelection =
  stableId :: "string option"
  s_stackId :: "string option"
  s_path :: string
  assignmentId :: string
  lines :: "LineId list"

record ('h, 'c) UncommittedState =
  treeChanges :: "'c TreeChange EntityState"
  hunkAssignments :: "'h HunkAssignment EntityState"
  hunkSelection :: "HunkSelection EntityState"

text \<open>
  The key functions \<open>compositeKey\<close>, \<open>partialKey\<close> (with and without a path) and
  \<open>prefixKey\<close> of \<open>$lib/selection/entityAdapters\<close> are not among the sources: the
  reducers take them as a parameter, and every theorem holds for any choice of them.
\<close>

record 'h KeyScheme =
  compositeKey :: "string option \<Rightarrow> string \<Rightarrow> 'h option \<Rightarrow> string"
  partialKey :: "string option \<Rightarrow> string option \<Rightarrow> string"
  prefixKey :: "string option \<Rightarrow> string \<Rightarrow> string"

text \<open>
  Modelled from the spec: the \<open>selectId\<close> of the three adapters, declared in
  \<open>$lib/selection/entityAdapters\<close>. A tree change is keyed by its path, a hunk assignment
  by the composite key of its stack id, path and hunk header, a hunk selection by the
  key of the assignment it references.
\<close>

definition assignmentKey :: "'h KeyScheme \<Rightarrow> 'h HunkAssignment \<Rightarrow> string" where
  "assignmentKey K a = compositeKey K (a_stackId a) (a_path a) (a_hunkHeader a)"

definition initialState :: "('h, 'c) UncommittedState" where
  "initialState =
     \<lparr>treeChanges = getInitialState, hunkAssignments = getInitialState,
      hunkSelection = getInitialState\<rparr>"

text \<open>The two failures of the reducers, both a thrown \<open>Error\<close> in the source.\<close>

datatype error =
  NotFound string    \<comment> \<open>\<open>Expected to find assignment: key\<close>\<close>
| Unimplemented      \<comment> \<open>\<open>Not implemented\<close>\<close>

text \<open>A template literal prints a null stack id as \<open>null\<close>.\<close>

definition stackIdString :: "string option \<Rightarrow> string" where
  "stackIdString stackId = (case stackId of None \<Rightarrow> ''null'' | Some s \<Rightarrow> s)"

text \<open>\<open>a || b\<close> on a string that may be null: null and the empty string are falsy.\<close>

definition orElse :: "string option \<Rightarrow> string \<Rightarrow> string" where
  "orElse a b = (case a of None \<Rightarrow> b | Some s \<Rightarrow> if s = [] then b else s)"

section \<open>Reducers\<close>

definition clearHunkSelection ::
  "('h, 'c) UncommittedState \<Rightarrow> string option \<Rightarrow> ('h, 'c) UncommittedState" where
  "clearHunkSelection st stackId =
     st\<lparr>hunkSelection :=
          removeMany (hunkSelection st)
            (filter (\<lambda>k. startsWith k (stackIdString stackId)) (ids (hunkSelection st)))\<rparr>"

definition checkLine ::
  "'h KeyScheme \<Rightarrow> ('h, 'c) UncommittedState \<Rightarrow> string option \<Rightarrow> string \<Rightarrow> 'h \<Rightarrow> LineId
     \<Rightarrow> error + ('h, 'c) UncommittedState" where
  "checkLine K st stackId path hunkHeader line =
     (let key = compositeKey K stackId path (Some hunkHeader) in
      case selectById (hunkSelection st) key of
        Some selection \<Rightarrow>
          Inr (st\<lparr>hunkSelection :=
                    upsertOne assignmentId (hunkSelection st)
                      (selection\<lparr>lines := lines selection @ [line]\<rparr>)\<rparr>)
      | None \<Rightarrow>
          (case selectById (hunkAssignments st) key of
             None \<Rightarrow> Inl (NotFound key)
           | Some assignment \<Rightarrow>
               Inr (st\<lparr>hunkSelection :=
                         addOne assignmentId (hunkSelection st)
                           \<lparr>stableId = a_id assignment, s_stackId = stackId,
                            s_path = a_path assignment, assignmentId = key,
                            lines = [line]\<rparr>\<rparr>)))"

text \<open>The lines that differ from \<open>line\<close> in the old or in the new line number.\<close>

definition otherLines :: "LineId \<Rightarrow> LineId list \<Rightarrow> LineId list" where
  "otherLines line ls =
     filter (\<lambda>l. newLine l \<noteq> newLine line \<or> oldLine l \<noteq> oldLine line) ls"

definition uncheckLine ::
  "'h KeyScheme \<Rightarrow> ('h, 'c) UncommittedState \<Rightarrow> string option \<Rightarrow> string \<Rightarrow> 'h \<Rightarrow> LineId
     \<Rightarrow> LineId list \<Rightarrow> error + ('h, 'c) UncommittedState" where
  "uncheckLine K st stackId path hunkHeader line allLinesInHunk =
     (let key = compositeKey K stackId path (Some hunkHeader) in
      case selectById (hunkSelection st) key of
        None \<Rightarrow> Inr st
      | Some selection \<Rightarrow>
          (case selectById (hunkAssignments st) (assignmentId selection) of
             None \<Rightarrow> Inl (NotFound key)
           | Some assignment \<Rightarrow>
               if a_hunkHeader assignment = None then Inl Unimplemented
               else if length (lines selection) = 0 then
                 (let newLines = otherLines line allLinesInHunk in
                  if length newLines > 0
                  then Inr (st\<lparr>hunkSelection :=
                                 upsertOne assignmentId (hunkSelection st)
                                   (selection\<lparr>lines := newLines\<rparr>)\<rparr>)
                  else Inr (st\<lparr>hunkSelection :=
                                 removeOne (hunkSelection st) (assignmentId selection)\<rparr>))
               else
                 (let newLines = otherLines line (lines selection) in
                  if length newLines > 0
                  then Inr (st\<lparr>hunkSelection :=
                                 upsertOne assignmentId (hunkSelection st)
                                   (selection\<lparr>lines := newLines\<rparr>)\<rparr>)
                  else Inr (st\<lparr>hunkSelection :=
                                 removeOne (hunkSelection st) (assignmentId selection)\<rparr>))))"

definition checkHunk ::
  "'h KeyScheme \<Rightarrow> ('h, 'c) UncommittedState \<Rightarrow> string option \<Rightarrow> string \<Rightarrow> 'h option
     \<Rightarrow> ('h, 'c) UncommittedState" where
  "checkHunk K st stackId path hunkHeader =
     (let key = compositeKey K stackId path hunkHeader in
      case selectById (hunkAssignments st) key of
        None \<Rightarrow> st
      | Some assignment \<Rightarrow>
          st\<lparr>hunkSelection :=
               upsertOne assignmentId (hunkSelection st)
                 \<lparr>stableId = a_id assignment, s_stackId = stackId,
                  s_path = a_path assignment, assignmentId = key, lines = []\<rparr>\<rparr>)"

definition uncheckHunk ::
  "'h KeyScheme \<Rightarrow> ('h, 'c) UncommittedState \<Rightarrow> string option \<Rightarrow> string \<Rightarrow> 'h option
     \<Rightarrow> ('h, 'c) UncommittedState" where
  "uncheckHunk K st stackId path hunkHeader =
     st\<lparr>hunkSelection :=
          removeOne (hunkSelection st) (compositeKey K stackId path hunkHeader)\<rparr>"

text \<open>
  The loop shared by \<open>checkFile\<close>, \<open>checkDir\<close> and \<open>checkStack\<close>: every assignment under
  the prefix gets a whole-hunk selection, carrying the stack id of the action.
\<close>

definition checkPrefix ::
  "'h KeyScheme \<Rightarrow> ('h, 'c) UncommittedState \<Rightarrow> string option \<Rightarrow> string
     \<Rightarrow> ('h, 'c) UncommittedState" where
  "checkPrefix K st stackId pfx =
     st\<lparr>hunkSelection :=
          fold (\<lambda>assignment sel.
                  upsertOne assignmentId sel
                    \<lparr>stableId = a_id assignment, s_stackId = stackId,
                     s_path = a_path assignment, assignmentId = assignmentKey K assignment,
                     lines = []\<rparr>)
               (selectByPrefix (hunkAssignments st) pfx) (hunkSelection st)\<rparr>"

text \<open>The body shared by \<open>uncheckFile\<close>, \<open>uncheckDir\<close> and \<open>uncheckStack\<close>.\<close>

definition uncheckPrefix ::
  "('h, 'c) UncommittedState \<Rightarrow> string \<Rightarrow> ('h, 'c) UncommittedState" where
  "uncheckPrefix st pfx =
     st\<lparr>hunkSelection :=
          removeMany (hunkSelection st)
            (map assignmentId (selectByPrefix (hunkSelection st) pfx))\<rparr>"

definition checkFile ::
  "'h KeyScheme \<Rightarrow> ('h, 'c) UncommittedState \<Rightarrow> string option \<Rightarrow> string
     \<Rightarrow> ('h, 'c) UncommittedState" where
  "checkFile K st stackId path = checkPrefix K st stackId (partialKey K stackId (Some path))"

definition uncheckFile ::
  "'h KeyScheme \<Rightarrow> ('h, 'c) UncommittedState \<Rightarrow> string option \<Rightarrow> string
     \<Rightarrow> ('h, 'c) UncommittedState" where
  "uncheckFile K st stackId path = uncheckPrefix st (partialKey K stackId (Some path))"

definition checkDir ::
  "'h KeyScheme \<Rightarrow> ('h, 'c) UncommittedState \<Rightarrow> string option \<Rightarrow> string
     \<Rightarrow> ('h, 'c) UncommittedState" where
  "checkDir K st stackId path = checkPrefix K st stackId (prefixKey K stackId path)"

definition uncheckDir ::
  "'h KeyScheme \<Rightarrow> ('h, 'c) UncommittedState \<Rightarrow> string option \<Rightarrow> string
     \<Rightarrow> ('h, 'c) UncommittedState" where
  "uncheckDir K st stackId path = uncheckPrefix st (prefixKey K stackId path)"

definition checkStack ::
  "'h KeyScheme \<Rightarrow> ('h, 'c) UncommittedState \<Rightarrow> string option \<Rightarrow> ('h, 'c) UncommittedState" where
  "checkStack K st stackId = checkPrefix K st stackId (partialKey K stackId None)"

definition uncheckStack ::
  "'h KeyScheme \<Rightarrow> ('h, 'c) UncommittedState \<Rightarrow> string option \<Rightarrow> ('h, 'c) UncommittedState" where
  "uncheckStack K st stackId = uncheckPrefix st (partialKey K stackId None)"

subsection \<open>Snapshot replacement\<close>

text \<open>
  \<open>new Map(assignments.map((a) => [a.id || compositeKey(a), a]))\<close>: a later entry with
  the same key overwrites an earlier one.
\<close>

definition newAssignmentsMap ::
  "'h KeyScheme \<Rightarrow> 'h HunkAssignment list \<Rightarrow> (string \<rightharpoonup> 'h HunkAssignment)" where
  "newAssignmentsMap K assignments =
     fold (\<lambda>a m. m(orElse (a_id a) (assignmentKey K a) \<mapsto> a)) assignments Map.empty"

definition relinked :: "'h KeyScheme \<Rightarrow> 'h HunkAssignment \<Rightarrow> HunkSelection" where
  "relinked K newAssignment =
     \<lparr>stableId = a_id newAssignment, s_stackId = a_stackId newAssignment,
      s_path = a_path newAssignment, assignmentId = assignmentKey K newAssignment,
      lines = []\<rparr>"

definition updateAssignments ::
  "'h KeyScheme \<Rightarrow> ('h, 'c) UncommittedState \<Rightarrow> 'h HunkAssignment list \<Rightarrow> 'c TreeChange list
     \<Rightarrow> ('h, 'c) UncommittedState" where
  "updateAssignments K st assignments changes =
     (let oldSelections = selectAll (hunkSelection st);
          newAssignments = newAssignmentsMap K assignments
      in \<lparr>treeChanges = addManyPlain tc_path getInitialState changes,
          hunkAssignments = addMany (assignmentKey K) getInitialState assignments,
          hunkSelection =
            fold (\<lambda>old sel.
                    case newAssignments (orElse (stableId old) (assignmentId old)) of
                      None \<Rightarrow> sel
                    | Some newAssignment \<Rightarrow> addOne assignmentId sel (relinked K newAssignment))
                 oldSelections (removeAll (hunkSelection st))\<rparr>)"

subsection \<open>The slice as a step function\<close>

datatype ('h, 'c) action =
  ClearHunkSelection "string option"
| Update "'h HunkAssignment list" "'c TreeChange list"
| CheckLine "string option" string 'h LineId
| UncheckLine "string option" string 'h LineId "LineId list"
| CheckHunk "string option" string "'h option"
| UncheckHunk "string option" string "'h option"
| CheckFile "string option" string
| UncheckFile "string option" string
| CheckDir "string option" string
| UncheckDir "string option" string
| CheckStack "string option"
| UncheckStack "string option"

fun reducer ::
  "'h KeyScheme \<Rightarrow> ('h, 'c) UncommittedState \<Rightarrow> ('h, 'c) action
     \<Rightarrow> error + ('h, 'c) UncommittedState" where
  "reducer K st (ClearHunkSelection stackId) = Inr (clearHunkSelection st stackId)"
| "reducer K st (Update assignments changes) = Inr (updateAssignments K st assignments changes)"
| "reducer K st (CheckLine stackId path hunkHeader line) =
     checkLine K st stackId path hunkHeader line"
| "reducer K st (UncheckLine stackId path hunkHeader line allLinesInHunk) =
     uncheckLine K st stackId path hunkHeader line allLinesInHunk"
| "reducer K st (CheckHunk stackId path hunkHeader) = Inr (checkHunk K st stackId path hunkHeader)"
| "reducer K st (UncheckHunk stackId path hunkHeader) =
     Inr (uncheckHunk K st stackId path hunkHeader)"
| "reducer K st (CheckFile stackId path) = Inr (checkFile K st stackId path)"
| "reducer K st (UncheckFile stackId path) = Inr (uncheckFile K st stackId path)"
| "reducer K st (CheckDir stackId path) = Inr (checkDir K st stackId path)"
| "reducer K st (UncheckDir stackId path) = Inr (uncheckDir K st stackId path)"
| "reducer K st (CheckStack stackId) = Inr (checkStack K st stackId)"
| "reducer K st (UncheckStack stackId) = Inr (uncheckStack K st stackId)"

text \<open>
  The states the slice can be in: the initial state, and every state a reducer returns
  from one of them. A reducer that throws leaves the state as it was.
\<close>

inductive reachable :: "'h KeyScheme \<Rightarrow> ('h, 'c) UncommittedState \<Rightarrow> bool"
  for K :: "'h KeyScheme" where
  init: "reachable K initialState"
| step: "reachable K st \<Longrightarrow> reducer K st act = Inr st' \<Longrightarrow> reachable K st'"

section \<open>Selectors\<close>

datatype CheckboxStatus = Checked | Indeterminate | Unchecked

definition fileCheckStatus ::
  "'h KeyScheme \<Rightarrow> ('h, 'c) UncommittedState \<Rightarrow> string option \<Rightarrow> string \<Rightarrow> CheckboxStatus" where
  "fileCheckStatus K st stackId path =
     (let pfx = partialKey K stackId (Some path);
          selection = selectByPrefix (hunkSelection st) pfx;
          stackAssignments = selectByPrefix (hunkAssignments st) pfx
      in if length selection = 0 then Unchecked
         else if length selection = length stackAssignments
                 \<and> list_all (\<lambda>s. length (lines s) = 0) selection
         then Checked
         else Indeterminate)"

text \<open>The body shared by \<open>folderCheckStatus\<close> and \<open>stackCheckStatus\<close>.\<close>

definition prefixCheckStatus ::
  "'h KeyScheme \<Rightarrow> ('h, 'c) UncommittedState \<Rightarrow> string \<Rightarrow> CheckboxStatus" where
  "prefixCheckStatus K st pfx =
     (let matches = selectByPrefix (hunkAssignments st) pfx in
      if length matches = 0 then Unchecked
      else if list_all (\<lambda>a. entities (hunkSelection st) (assignmentKey K a) \<noteq> None) matches
      then Checked
      else if list_ex (\<lambda>a. entities (hunkSelection st) (assignmentKey K a) \<noteq> None) matches
      then Indeterminate
      else Unchecked)"

definition folderCheckStatus ::
  "'h KeyScheme \<Rightarrow> ('h, 'c) UncommittedState \<Rightarrow> string option \<Rightarrow> string \<Rightarrow> CheckboxStatus" where
  "folderCheckStatus K st stackId path = prefixCheckStatus K st (prefixKey K stackId path)"

definition stackCheckStatus ::
  "'h KeyScheme \<Rightarrow> ('h, 'c) UncommittedState \<Rightarrow> string option \<Rightarrow> CheckboxStatus" where
  "stackCheckStatus K st stackId = prefixCheckStatus K st (partialKey K stackId None)"

section \<open>Well-formed states\<close>

text \<open>
  What the adapters maintain: the ids are pairwise distinct, an id is listed exactly when
  the dictionary has an entity for it, and every entity is stored under its own id. A
  state of the slice is well formed when its three collections are, and every selection
  is stored under the key of an assignment of the state.
\<close>

definition wf_entities :: "('v \<Rightarrow> string) \<Rightarrow> 'v EntityState \<Rightarrow> bool" where
  "wf_entities selectId es \<longleftrightarrow>
     distinct (ids es) \<and> (\<forall>k. k \<in> set (ids es) \<longleftrightarrow> entities es k \<noteq> None)
     \<and> (\<forall>k v. entities es k = Some v \<longrightarrow> selectId v = k)"

definition wf_state :: "'h KeyScheme \<Rightarrow> ('h, 'c) UncommittedState \<Rightarrow> bool" where
  "wf_state K st \<longleftrightarrow>
     wf_entities tc_path (treeChanges st)
     \<and> wf_entities (assignmentKey K) (hunkAssignments st)
     \<and> wf_entities assignmentId (hunkSelection st)
     \<and> set (ids (hunkSelection st)) \<subseteq> set (ids (hunkAssignments st))"

text \<open>Every selection is stored under the key of an assignment of \<open>A\<close>.\<close>

definition sel_inv :: "string set \<Rightarrow> HunkSelection EntityState \<Rightarrow> bool" where
  "sel_inv A sel \<longleftrightarrow> wf_entities assignmentId sel \<and> set (ids sel) \<subseteq> A"

section \<open>A key scheme and a snapshot to evaluate on\<close>

text \<open>
  Modelled from the spec: the key construction rules. The full key is
  \<open>stackId|path|hunkHeader\<close> with \<open>null\<close> for an absent stack id or hunk header, the
  partial key is the prefix of the full key that ends after the stack id or after the
  path, the prefix key is the prefix that ends inside the path. The hunk header is taken
  in its serialised form. The concrete evaluations below use this scheme.
\<close>

definition specKeys :: "string KeyScheme" where
  "specKeys =
     \<lparr>compositeKey = (\<lambda>stackId path hunkHeader.
        stackIdString stackId @ ''|'' @ path @ ''|''
          @ (case hunkHeader of None \<Rightarrow> ''null'' | Some h \<Rightarrow> h)),
      partialKey = (\<lambda>stackId path.
        case path of
          None \<Rightarrow> stackIdString stackId @ ''|''
        | Some p \<Rightarrow> stackIdString stackId @ ''|'' @ p @ ''|''),
      prefixKey = (\<lambda>stackId path. stackIdString stackId @ ''|'' @ path)\<rparr>"

text \<open>
  Two hunks of \<open>f\<close> in stack \<open>a\<close> with stable ids, as in the spec's scenario, and a
  whole-file assignment of \<open>g\<close> with no stable id.
\<close>

definition hunk1 :: "string HunkAssignment" where
  "hunk1 = \<lparr>a_id = Some ''S1'', a_stackId = Some ''a'', a_path = ''f'', a_hunkHeader = Some ''H1''\<rparr>"

definition hunk2 :: "string HunkAssignment" where
  "hunk2 = \<lparr>a_id = Some ''S2'', a_stackId = Some ''a'', a_path = ''f'', a_hunkHeader = Some ''H2''\<rparr>"

definition wholeFile :: "string HunkAssignment" where
  "wholeFile = \<lparr>a_id = None, a_stackId = Some ''a'', a_path = ''g'', a_hunkHeader = None\<rparr>"

definition line1 :: LineId where
  "line1 = \<lparr>oldLine = Some 1, newLine = Some 1\<rparr>"

definition line2 :: LineId where
  "line2 = \<lparr>oldLine = None, newLine = Some 2\<rparr>"

definition snapshot :: "(string, unit) UncommittedState" where
  "snapshot = updateAssignments specKeys initialState [hunk1, hunk2, wholeFile] []"

text \<open>The snapshot after \<open>checkHunk\<close> on the whole-file assignment of \<open>g\<close>.\<close>

definition wholeFileChecked :: "(string, unit) UncommittedState" where
  "wholeFileChecked = checkHunk specKeys snapshot (Some ''a'') ''g'' None"

definition line3 :: LineId where
  "line3 = \<lparr>oldLine = Some 3, newLine = None\<rparr>"

text \<open>The snapshot with a selection for the first hunk of \<open>f\<close>, with the given lines.\<close>

definition hunk1Selected :: "LineId list \<Rightarrow> (string, unit) UncommittedState" where
  "hunk1Selected ls =
     snapshot\<lparr>hunkSelection :=
       \<lparr>ids = [''a|f|H1''],
        entities = [''a|f|H1'' \<mapsto>
          \<lparr>stableId = Some ''S1'', s_stackId = Some ''a'', s_path = ''f'',
           assignmentId = ''a|f|H1'', lines = ls\<rparr>]\<rparr>\<rparr>"

text \<open>Both hunks of \<open>f\<close> selected, the first with one line, the second as a whole.\<close>

definition bothSelected :: "(string, unit) UncommittedState" where
  "bothSelected = checkHunk specKeys (hunk1Selected [line1]) (Some ''a'') ''f'' (Some ''H2'')"

text \<open>Both hunks of \<open>f\<close> selected as a whole.\<close>

definition wholeSelected :: "(string, unit) UncommittedState" where
  "wholeSelected = checkHunk specKeys (hunk1Selected []) (Some ''a'') ''f'' (Some ''H2'')"

text \<open>
  Assignments of a later snapshot: the first hunk of \<open>f\<close> with a new header and its old
  stable id, the whole-file assignment moved to \<open>h\<close>, and a tree change of \<open>f\<close>.
\<close>

definition hunk1Moved :: "string HunkAssignment" where
  "hunk1Moved = \<lparr>a_id = Some ''S1'', a_stackId = Some ''a'', a_path = ''f'', a_hunkHeader = Some ''H9''\<rparr>"

definition movedFile :: "string HunkAssignment" where
  "movedFile = \<lparr>a_id = None, a_stackId = Some ''a'', a_path = ''h'', a_hunkHeader = None\<rparr>"

definition changeF :: "unit TreeChange" where
  "changeF = \<lparr>tc_path = ''f'', tc_status = ()\<rparr>"

section \<open>Re-linking selections after a snapshot replacement\<close>

text \<open>
  The new assignment an old selection is re-linked to. The selection looks up its stable
  id, or its \<open>assignmentId\<close> when the stable id is null or empty; a new assignment is
  found under its stable id, or under its composite key when the stable id is null or
  empty; of several assignments under one key the last one is found.
\<close>

definition relinkTarget ::
  "'h KeyScheme \<Rightarrow> 'h HunkAssignment list \<Rightarrow> HunkSelection \<Rightarrow> 'h HunkAssignment option" where
  "relinkTarget K assignments old =
     List.find (\<lambda>a. orElse (a_id a) (assignmentKey K a) = orElse (stableId old) (assignmentId old))
       (rev assignments)"

text \<open>The loop of the snapshot replacement over the old selections.\<close>

definition relinkAll ::
  "'h KeyScheme \<Rightarrow> (HunkSelection \<Rightarrow> 'h HunkAssignment option) \<Rightarrow> HunkSelection list
     \<Rightarrow> HunkSelection EntityState \<Rightarrow> HunkSelection EntityState" where
  "relinkAll K g olds sel =
     fold (\<lambda>old sel. case g old of None \<Rightarrow> sel
                      | Some a \<Rightarrow> addOne assignmentId sel (relinked K a)) olds sel"

text \<open>Every selection is stored under its \<open>assignmentId\<close> and has no lines.\<close>

definition wholeOnly :: "HunkSelection EntityState \<Rightarrow> bool" where
  "wholeOnly sel \<longleftrightarrow> (\<forall>k s. entities sel k = Some s \<longrightarrow> assignmentId s = k \<and> lines s = [])"

section \<open>The conditions of the check status\<close>

text \<open>
  Every, or some, hunk assignment selected by the prefix has a hunk selection stored
  under its key, whatever the lines of that selection.
\<close>

definition everyMatchSelected :: "'h KeyScheme \<Rightarrow> ('h, 'c) UncommittedState \<Rightarrow> string \<Rightarrow> bool" where
  "everyMatchSelected K st pfx \<longleftrightarrow>
     (\<forall>a \<in> set (selectByPrefix (hunkAssignments st) pfx).
        selectById (hunkSelection st) (assignmentKey K a) \<noteq> None)"

definition someMatchSelected :: "'h KeyScheme \<Rightarrow> ('h, 'c) UncommittedState \<Rightarrow> string \<Rightarrow> bool" where
  "someMatchSelected K st pfx \<longleftrightarrow>
     (\<exists>a \<in> set (selectByPrefix (hunkAssignments st) pfx).
        selectById (hunkSelection st) (assignmentKey K a) \<noteq> None)"

text \<open>
  Some hunk assignment, or some hunk selection, is stored under a key that starts with
  the prefix; every hunk assignment under the prefix has a selection with no lines, that
  is, is selected as a whole.
\<close>

definition someAssignmentUnder :: "('h, 'c) UncommittedState \<Rightarrow> string \<Rightarrow> bool" where
  "someAssignmentUnder st pfx \<longleftrightarrow> (\<exists>k \<in> set (ids (hunkAssignments st)). startsWith k pfx)"

definition someSelectionUnder :: "('h, 'c) UncommittedState \<Rightarrow> string \<Rightarrow> bool" where
  "someSelectionUnder st pfx \<longleftrightarrow> (\<exists>k \<in> set (ids (hunkSelection st)). startsWith k pfx)"

definition everyAssignmentWholeSelected :: "('h, 'c) UncommittedState \<Rightarrow> string \<Rightarrow> bool" where
  "everyAssignmentWholeSelected st pfx \<longleftrightarrow>
     (\<forall>k \<in> set (ids (hunkAssignments st)).
        startsWith k pfx \<longrightarrow>
          (case selectById (hunkSelection st) k of None \<Rightarrow> False | Some s \<Rightarrow> lines s = []))"

section \<open>The adapter's operations keep a collection well formed\<close>

lemma wf_entities_init: "wf_entities sid getInitialState"
  by (simp add: wf_entities_def getInitialState_def)

lemma entities_addOne:
  "entities (addOne sid es e) k =
     (if k = sid e \<and> entities es k = None then Some e else entities es k)"
  by (auto simp: addOne_def Let_def split: option.splits)

lemma ids_addOne:
  "ids (addOne sid es e) = (if entities es (sid e) = None then ids es @ [sid e] else ids es)"
  by (auto simp: addOne_def Let_def split: option.splits)

lemma wf_entities_addOne: "wf_entities sid es \<Longrightarrow> wf_entities sid (addOne sid es e)"
  unfolding wf_entities_def
  by (auto simp: entities_addOne ids_addOne split: if_splits)

lemma wf_entities_addMany: "wf_entities sid es \<Longrightarrow> wf_entities sid (addMany sid es xs)"
  unfolding addMany_def
  by (induction xs arbitrary: es) (simp_all add: wf_entities_addOne)

lemma addOnePlain_addOne:
  "sid e \<notin> set objectPrototypeNames \<Longrightarrow> addOnePlain sid es e = addOne sid es e"
  by (auto simp: addOnePlain_def addOne_def Let_def split: option.splits)

lemma addOnePlain_inherited:
  "sid e \<in> set objectPrototypeNames \<Longrightarrow> addOnePlain sid es e = es"
  by (simp add: addOnePlain_def Let_def)

lemma addManyPlain_addMany:
  "addManyPlain sid es xs
     = addMany sid es (filter (\<lambda>x. sid x \<notin> set objectPrototypeNames) xs)"
  unfolding addManyPlain_def addMany_def
  by (induction xs arbitrary: es) (simp_all add: addOnePlain_addOne addOnePlain_inherited)

lemma wf_entities_addManyPlain:
  "wf_entities sid es \<Longrightarrow> wf_entities sid (addManyPlain sid es xs)"
  by (simp add: addManyPlain_addMany wf_entities_addMany)

lemma entities_upsertOne:
  "entities (upsertOne sid es e) k = (if k = sid e then Some e else entities es k)"
  by (auto simp: upsertOne_def Let_def entities_addOne split: option.splits)

lemma ids_upsertOne:
  "ids (upsertOne sid es e) = (if entities es (sid e) = None then ids es @ [sid e] else ids es)"
  by (auto simp: upsertOne_def Let_def ids_addOne split: option.splits)

lemma wf_entities_upsertOne: "wf_entities sid es \<Longrightarrow> wf_entities sid (upsertOne sid es e)"
  unfolding wf_entities_def
  by (auto simp: entities_upsertOne ids_upsertOne split: if_splits)

lemma entities_removeMany:
  "entities (removeMany es keys) k = (if k \<in> set keys then None else entities es k)"
  by (auto simp: removeMany_def Let_def list_ex_iff)

lemma ids_removeMany:
  "\<forall>k. k \<in> set (ids es) \<longleftrightarrow> entities es k \<noteq> None \<Longrightarrow>
   ids (removeMany es keys) = filter (\<lambda>k. k \<notin> set keys) (ids es)"
proof -
  assume d: "\<forall>k. k \<in> set (ids es) \<longleftrightarrow> entities es k \<noteq> None"
  have a: "\<And>k. k \<in> set (ids es) \<Longrightarrow> entities es k \<noteq> None"
    using d by auto
  show ?thesis
  proof (cases "list_ex (\<lambda>k. entities es k \<noteq> None) keys")
    case True
    then show ?thesis
      using a by (auto simp: removeMany_def Let_def intro!: filter_cong)
  next
    case False
    then have "\<And>k. k \<in> set (ids es) \<Longrightarrow> k \<notin> set keys"
      using a by (fastforce simp: list_ex_iff)
    then have "filter (\<lambda>k. k \<notin> set keys) (ids es) = ids es"
      by (simp add: filter_id_conv)
    with False show ?thesis by (simp add: removeMany_def Let_def)
  qed
qed

lemma wf_entities_removeMany: "wf_entities sid es \<Longrightarrow> wf_entities sid (removeMany es keys)"
  unfolding wf_entities_def
  apply (intro conjI)
    apply (simp add: ids_removeMany)
   apply (auto simp: ids_removeMany entities_removeMany split: if_splits)
  done

lemma wf_entities_removeOne: "wf_entities sid es \<Longrightarrow> wf_entities sid (removeOne es key)"
  by (simp add: removeOne_def wf_entities_removeMany)

lemma wf_entities_removeAll: "wf_entities sid (removeAll es)"
  by (simp add: wf_entities_def removeAll_def)

lemma wf_ids_iff: "wf_entities sid es \<Longrightarrow> k \<in> set (ids es) \<longleftrightarrow> entities es k \<noteq> None"
  by (simp add: wf_entities_def)

lemma wf_selectId: "wf_entities sid es \<Longrightarrow> entities es k = Some v \<Longrightarrow> sid v = k"
  by (simp add: wf_entities_def)

lemma set_ids_addOne: "wf_entities sid es \<Longrightarrow> set (ids (addOne sid es e)) = insert (sid e) (set (ids es))"
  by (auto simp: ids_addOne wf_ids_iff)

lemma set_ids_upsertOne:
  "wf_entities sid es \<Longrightarrow> set (ids (upsertOne sid es e)) = insert (sid e) (set (ids es))"
  by (auto simp: ids_upsertOne wf_ids_iff)

lemma set_ids_addMany:
  "wf_entities sid es \<Longrightarrow> set (ids (addMany sid es xs)) = set (ids es) \<union> sid ` set xs"
  unfolding addMany_def
  by (induction xs arbitrary: es) (simp_all add: wf_entities_addOne set_ids_addOne)

lemma set_ids_removeMany:
  "wf_entities sid es \<Longrightarrow> set (ids (removeMany es keys)) = set (ids es) - set keys"
  by (auto simp: ids_removeMany wf_entities_def)

lemma in_set_map_filter: "y \<in> set (List.map_filter f xs) \<longleftrightarrow> (\<exists>x \<in> set xs. f x = Some y)"
  by (induction xs) (auto simp: map_filter_simps split: option.splits)

lemma in_selectByPrefix:
  "a \<in> set (selectByPrefix es p) \<longleftrightarrow>
     (\<exists>k \<in> set (ids es). startsWith k p \<and> entities es k = Some a)"
  by (auto simp: selectByPrefix_def in_set_map_filter)

lemma in_selectAll: "a \<in> set (selectAll es) \<longleftrightarrow> (\<exists>k \<in> set (ids es). entities es k = Some a)"
  by (auto simp: selectAll_def in_set_map_filter)

lemma newAssignmentsMap_mem_aux:
  "fold (\<lambda>a m. m(f a \<mapsto> a)) xs m0 k = Some a \<Longrightarrow> a \<in> set xs \<or> m0 k = Some a"
  by (induction xs arbitrary: m0) (fastforce split: if_splits)+

lemma newAssignmentsMap_mem: "newAssignmentsMap K xs k = Some a \<Longrightarrow> a \<in> set xs"
  unfolding newAssignmentsMap_def by (drule newAssignmentsMap_mem_aux) simp

section \<open>The reducers keep the state well formed\<close>

lemma sel_inv_upsertOne: "sel_inv A sel \<Longrightarrow> assignmentId s \<in> A \<Longrightarrow> sel_inv A (upsertOne assignmentId sel s)"
  by (simp add: sel_inv_def wf_entities_upsertOne set_ids_upsertOne)

lemma sel_inv_addOne: "sel_inv A sel \<Longrightarrow> assignmentId s \<in> A \<Longrightarrow> sel_inv A (addOne assignmentId sel s)"
  by (simp add: sel_inv_def wf_entities_addOne set_ids_addOne)

lemma sel_inv_removeMany: "sel_inv A sel \<Longrightarrow> sel_inv A (removeMany sel keys)"
  by (auto simp: sel_inv_def wf_entities_removeMany set_ids_removeMany)

lemma sel_inv_removeOne: "sel_inv A sel \<Longrightarrow> sel_inv A (removeOne sel key)"
  by (simp add: removeOne_def sel_inv_removeMany)

lemma sel_inv_removeAll: "sel_inv A (removeAll sel)"
  by (simp add: sel_inv_def wf_entities_removeAll) (simp add: removeAll_def)

lemma wf_state_alt:
  "wf_state K st \<longleftrightarrow>
     wf_entities tc_path (treeChanges st) \<and> wf_entities (assignmentKey K) (hunkAssignments st)
     \<and> sel_inv (set (ids (hunkAssignments st))) (hunkSelection st)"
  by (auto simp: wf_state_def sel_inv_def)

lemma sel_inv_fold_upsert:
  "sel_inv A sel \<Longrightarrow> (\<And>a. a \<in> set xs \<Longrightarrow> assignmentId (f a) \<in> A) \<Longrightarrow>
   sel_inv A (fold (\<lambda>a s. upsertOne assignmentId s (f a)) xs sel)"
  by (induction xs arbitrary: sel) (simp_all add: sel_inv_upsertOne)

lemma sel_inv_fold_relink:
  "sel_inv A sel \<Longrightarrow> (\<And>k a. g k = Some a \<Longrightarrow> assignmentId (f a) \<in> A) \<Longrightarrow>
   sel_inv A (fold (\<lambda>old s. case g (h old) of None \<Rightarrow> s | Some a \<Rightarrow> addOne assignmentId s (f a)) xs sel)"
  by (induction xs arbitrary: sel) (auto simp: sel_inv_addOne split: option.splits)

lemma wf_state_initial: "wf_state K initialState"
  by (simp add: wf_state_def initialState_def wf_entities_init) (simp add: getInitialState_def)

lemma wf_state_clearHunkSelection: "wf_state K st \<Longrightarrow> wf_state K (clearHunkSelection st stackId)"
  by (simp add: wf_state_alt clearHunkSelection_def sel_inv_removeMany)

lemma wf_state_uncheckPrefix: "wf_state K st \<Longrightarrow> wf_state K (uncheckPrefix st pfx)"
  by (simp add: wf_state_alt uncheckPrefix_def sel_inv_removeMany)

lemma wf_state_uncheckHunk: "wf_state K st \<Longrightarrow> wf_state K (uncheckHunk K st stackId path hh)"
  by (simp add: wf_state_alt uncheckHunk_def sel_inv_removeOne)

lemma wf_state_checkHunk: "wf_state K st \<Longrightarrow> wf_state K (checkHunk K st stackId path hh)"
  by (auto simp: wf_state_alt checkHunk_def Let_def selectById_def wf_ids_iff
           intro!: sel_inv_upsertOne split: option.splits)

lemma wf_state_checkPrefix: "wf_state K st \<Longrightarrow> wf_state K (checkPrefix K st stackId pfx)"
  unfolding wf_state_alt checkPrefix_def
  by (auto intro!: sel_inv_fold_upsert simp: in_selectByPrefix dest: wf_selectId)

lemma wf_state_updateAssignments:
  "wf_state K (updateAssignments K st assignments changes)"
proof -
  let ?A = "addMany (assignmentKey K) getInitialState assignments"
  have A: "set (ids ?A) = assignmentKey K ` set assignments"
    by (simp add: set_ids_addMany wf_entities_init) (simp add: getInitialState_def)
  have "sel_inv (set (ids ?A))
          (fold (\<lambda>old s. case newAssignmentsMap K assignments
                                 (orElse (stableId old) (assignmentId old)) of
                             None \<Rightarrow> s | Some a \<Rightarrow> addOne assignmentId s (relinked K a))
             (selectAll (hunkSelection st)) (removeAll (hunkSelection st)))"
    by (rule sel_inv_fold_relink[OF sel_inv_removeAll])
       (auto simp: A relinked_def dest: newAssignmentsMap_mem)
  then show ?thesis
    by (simp add: wf_state_alt updateAssignments_def Let_def wf_entities_addMany
                  wf_entities_addManyPlain wf_entities_init)
qed

lemma selection_key_is_assignment:
  assumes "wf_state K st" and "entities (hunkSelection st) k = Some s"
  shows "assignmentId s = k" and "entities (hunkAssignments st) k \<noteq> None"
proof -
  from assms show "assignmentId s = k" by (auto simp: wf_state_def dest: wf_selectId)
  from assms have "k \<in> set (ids (hunkSelection st))"
    by (auto simp: wf_state_def wf_ids_iff)
  with assms have "k \<in> set (ids (hunkAssignments st))" by (auto simp: wf_state_def)
  with assms show "entities (hunkAssignments st) k \<noteq> None"
    by (auto simp: wf_state_def wf_ids_iff)
qed

lemma wf_state_upsert_existing:
  assumes "wf_state K st" and "entities (hunkSelection st) k = Some s" and "assignmentId s' = k"
  shows "wf_state K (st\<lparr>hunkSelection := upsertOne assignmentId (hunkSelection st) s'\<rparr>)"
proof -
  have "k \<in> set (ids (hunkAssignments st))"
    using selection_key_is_assignment(2)[OF assms(1,2)] assms(1)
    by (auto simp: wf_state_def wf_ids_iff)
  with assms show ?thesis by (simp add: wf_state_alt sel_inv_upsertOne)
qed

lemma wf_state_add_for_assignment:
  assumes "wf_state K st" and "entities (hunkAssignments st) k = Some a" and "assignmentId s' = k"
  shows "wf_state K (st\<lparr>hunkSelection := addOne assignmentId (hunkSelection st) s'\<rparr>)"
proof -
  have "k \<in> set (ids (hunkAssignments st))"
    using assms(1,2) by (auto simp: wf_state_def wf_ids_iff)
  with assms show ?thesis by (simp add: wf_state_alt sel_inv_addOne)
qed

lemma wf_state_removeOne:
  "wf_state K st \<Longrightarrow> wf_state K (st\<lparr>hunkSelection := removeOne (hunkSelection st) k\<rparr>)"
  by (simp add: wf_state_alt sel_inv_removeOne)

lemma wf_state_checkLine:
  assumes "wf_state K st" and "checkLine K st stackId path hh line = Inr st'"
  shows "wf_state K st'"
proof (cases "entities (hunkSelection st) (compositeKey K stackId path (Some hh))")
  case None
  with assms show ?thesis
    by (auto simp: checkLine_def Let_def selectById_def split: option.splits
             intro: wf_state_add_for_assignment)
next
  case (Some s)
  with assms selection_key_is_assignment(1)[OF assms(1) Some] show ?thesis
    by (auto simp: checkLine_def Let_def selectById_def intro: wf_state_upsert_existing)
qed

lemma wf_state_uncheckLine:
  assumes "wf_state K st" and "uncheckLine K st stackId path hh line allLines = Inr st'"
  shows "wf_state K st'"
proof (cases "entities (hunkSelection st) (compositeKey K stackId path (Some hh))")
  case None
  with assms show ?thesis by (simp add: uncheckLine_def Let_def selectById_def)
next
  case (Some s)
  with assms selection_key_is_assignment(1)[OF assms(1) Some] show ?thesis
    by (auto simp: uncheckLine_def Let_def selectById_def split: option.splits if_splits
             intro: wf_state_upsert_existing wf_state_removeOne)
qed

lemma wf_state_reducer: "wf_state K st \<Longrightarrow> reducer K st act = Inr st' \<Longrightarrow> wf_state K st'"
  by (cases act)
     (auto simp: wf_state_clearHunkSelection wf_state_updateAssignments wf_state_checkHunk
                 wf_state_uncheckHunk wf_state_checkPrefix wf_state_uncheckPrefix
                 checkFile_def uncheckFile_def checkDir_def uncheckDir_def checkStack_def
                 uncheckStack_def
           elim: wf_state_checkLine wf_state_uncheckLine)

lemma reachable_wf_state: "reachable K st \<Longrightarrow> wf_state K st"
  by (induction rule: reachable.induct) (auto simp: wf_state_initial elim: wf_state_reducer)

section \<open>What the line reducers return\<close>

lemma otherLines_eq: "otherLines line ls = filter (\<lambda>l. l \<noteq> line) ls"
  unfolding otherLines_def by (rule filter_cong) auto

lemma more_removeMany: "EntityState.more (removeMany es keys) = EntityState.more es"
  by (simp add: removeMany_def Let_def)

lemma removeOne_present:
  assumes "wf_entities sid es"
  shows "removeOne es key
           = es\<lparr>ids := filter (\<lambda>k. k \<noteq> key) (ids es), entities := (entities es)(key := None)\<rparr>"
proof (rule EntityState.equality)
  show "ids (removeOne es key)
          = ids (es\<lparr>ids := filter (\<lambda>k. k \<noteq> key) (ids es),
                     entities := (entities es)(key := None)\<rparr>)"
    using assms by (simp add: removeOne_def ids_removeMany wf_entities_def)
  show "entities (removeOne es key)
          = entities (es\<lparr>ids := filter (\<lambda>k. k \<noteq> key) (ids es),
                          entities := (entities es)(key := None)\<rparr>)"
    by (rule ext) (simp add: removeOne_def entities_removeMany)
qed (simp add: removeOne_def more_removeMany)

lemma checkLine_appends:
  assumes wf: "wf_state K st"
    and key: "key = compositeKey K stackId path (Some hunkHeader)"
    and sel: "selectById (hunkSelection st) key = Some selection"
  shows "checkLine K st stackId path hunkHeader line
           = Inr (st\<lparr>hunkSelection :=
                     (hunkSelection st)
                       \<lparr>entities := (entities (hunkSelection st))
                          (key \<mapsto> selection\<lparr>lines := lines selection @ [line]\<rparr>)\<rparr>\<rparr>)"
proof -
  from sel have e: "entities (hunkSelection st) key = Some selection"
    by (simp add: selectById_def)
  have "assignmentId selection = key"
    by (rule selection_key_is_assignment(1)[OF wf e])
  with sel e show ?thesis
    by (simp add: checkLine_def Let_def upsertOne_def key[symmetric])
qed

lemma uncheckLine_remaining:
  assumes wf: "wf_state K st"
    and key: "key = compositeKey K stackId path (Some hunkHeader)"
    and sel: "selectById (hunkSelection st) key = Some selection"
    and asg: "selectById (hunkAssignments st) (assignmentId selection) = Some assignment"
    and hdr: "a_hunkHeader assignment \<noteq> None"
    and rem: "remaining = filter (\<lambda>l. l \<noteq> line)
                (if lines selection = [] then allLinesInHunk else lines selection)"
  shows "uncheckLine K st stackId path hunkHeader line allLinesInHunk
           = Inr (st\<lparr>hunkSelection :=
                     (if remaining = []
                      then (hunkSelection st)
                             \<lparr>ids := filter (\<lambda>k. k \<noteq> key) (ids (hunkSelection st)),
                              entities := (entities (hunkSelection st))(key := None)\<rparr>
                      else (hunkSelection st)
                             \<lparr>entities := (entities (hunkSelection st))
                                (key \<mapsto> selection\<lparr>lines := remaining\<rparr>)\<rparr>)\<rparr>)"
proof -
  from sel have e: "entities (hunkSelection st) key = Some selection"
    by (simp add: selectById_def)
  have k: "assignmentId selection = key"
    by (rule selection_key_is_assignment(1)[OF wf e])
  have w: "wf_entities assignmentId (hunkSelection st)"
    using wf by (simp add: wf_state_def)
  have rm: "removeOne (hunkSelection st) key
              = (hunkSelection st)
                  \<lparr>ids := filter (\<lambda>k. k \<noteq> key) (ids (hunkSelection st)),
                   entities := (entities (hunkSelection st))(key := None)\<rparr>"
    by (rule removeOne_present[OF w])
  have up: "\<And>ls. upsertOne assignmentId (hunkSelection st) (selection\<lparr>lines := ls\<rparr>)
              = (hunkSelection st)
                  \<lparr>entities := (entities (hunkSelection st))(key \<mapsto> selection\<lparr>lines := ls\<rparr>)\<rparr>"
    by (simp add: upsertOne_def Let_def k e)
  show ?thesis
  proof (cases "lines selection = []")
    case True
    with sel asg hdr rem k show ?thesis
      by (simp add: uncheckLine_def Let_def otherLines_eq rm up key[symmetric])
  next
    case False
    with sel asg hdr rem k show ?thesis
      by (simp add: uncheckLine_def Let_def otherLines_eq rm up key[symmetric])
  qed
qed

text \<open>
  With a key function that never gives a present and an absent hunk header the same key,
  \<open>uncheckLine\<close> does not fail in a well-formed state.
\<close>

lemma uncheckLine_succeeds:
  assumes wf: "wf_state K st"
    and sep: "\<And>s p h s' p'. compositeKey K s p (Some h) \<noteq> compositeKey K s' p' None"
  shows "\<exists>st'. uncheckLine K st stackId path hunkHeader line allLinesInHunk = Inr st'"
proof (cases "entities (hunkSelection st) (compositeKey K stackId path (Some hunkHeader))")
  case None
  then show ?thesis by (simp add: uncheckLine_def Let_def selectById_def)
next
  case (Some selection)
  let ?key = "compositeKey K stackId path (Some hunkHeader)"
  note k = selection_key_is_assignment[OF wf Some]
  from k(2) obtain a where a: "entities (hunkAssignments st) ?key = Some a" by auto
  from wf have "wf_entities (assignmentKey K) (hunkAssignments st)" by (simp add: wf_state_def)
  then have "assignmentKey K a = ?key" using a by (rule wf_selectId)
  have "a_hunkHeader a \<noteq> None"
  proof
    assume "a_hunkHeader a = None"
    with \<open>assignmentKey K a = ?key\<close>
    have "compositeKey K (a_stackId a) (a_path a) None = ?key"
      by (simp add: assignmentKey_def)
    with sep[of stackId path hunkHeader "a_stackId a" "a_path a"] show False by simp
  qed
  with Some k(1) a show ?thesis
    by (auto simp: uncheckLine_def Let_def selectById_def)
qed

section \<open>Evaluating the reducers on concrete states\<close>

lemmas ev =
  snapshot_def updateAssignments_def initialState_def getInitialState_def addMany_def addOne_def
  addManyPlain_def addOnePlain_def objectPrototypeNames_def
  upsertOne_def removeMany_def removeOne_def removeAll_def selectById_def selectAll_def
  selectByPrefix_def startsWith_def specKeys_def assignmentKey_def hunk1_def hunk2_def
  wholeFile_def line1_def line2_def newAssignmentsMap_def relinked_def orElse_def
  stackIdString_def checkHunk_def checkLine_def uncheckLine_def otherLines_def
  fileCheckStatus_def folderCheckStatus_def stackCheckStatus_def prefixCheckStatus_def
  hunk1Selected_def bothSelected_def wholeFileChecked_def map_filter_simps Let_def

lemma reachable_snapshot: "reachable specKeys snapshot"
proof -
  have "reducer specKeys initialState (Update [hunk1, hunk2, wholeFile] []) = Inr snapshot"
    by (simp add: snapshot_def)
  then show ?thesis by (rule reachable.step[OF reachable.init])
qed

lemma wf_snapshot: "wf_state specKeys snapshot"
  by (rule reachable_wf_state[OF reachable_snapshot])

lemma wf_hunk1Selected: "wf_state specKeys (hunk1Selected ls)"
  using wf_snapshot
  by (auto simp: wf_state_def hunk1Selected_def wf_entities_def wf_ids_iff ev)

lemma hunk1_key: "''a|f|H1'' = compositeKey specKeys (Some ''a'') ''f'' (Some ''H1'')"
  by (simp add: specKeys_def stackIdString_def)

lemma hunk1Selected_selection:
  "selectById (hunkSelection (hunk1Selected ls)) ''a|f|H1''
     = Some \<lparr>stableId = Some ''S1'', s_stackId = Some ''a'', s_path = ''f'',
             assignmentId = ''a|f|H1'', lines = ls\<rparr>"
  by (simp add: hunk1Selected_def selectById_def)

lemma hunk1Selected_assignment:
  "selectById (hunkAssignments (hunk1Selected ls)) ''a|f|H1'' = Some hunk1"
  by (simp add: hunk1Selected_def ev)

lemma reachable_hunk1Selected_line1: "reachable specKeys (hunk1Selected [line1])"
proof -
  have "reducer specKeys snapshot (CheckLine (Some ''a'') ''f'' ''H1'' line1)
          = Inr (hunk1Selected [line1])"
    by (simp add: hunk1Selected_def ev)
  then show ?thesis by (rule reachable.step[OF reachable_snapshot])
qed

section \<open>Whole-hunk checking\<close>

text \<open>
  C6. When no hunk assignment is stored under the key of (stackId, path, hunkHeader),
  \<open>checkHunk\<close> does not fail and returns the state as it was: tree changes, hunk
  assignments and hunk selections are all unchanged.
\<close>

theorem checkHunk_without_assignment:
  assumes "selectById (hunkAssignments st) (compositeKey K stackId path hunkHeader) = None"
  shows "reducer K st (CheckHunk stackId path hunkHeader) = Inr st"
  using assms by (simp add: checkHunk_def)

theorem checkHunk_without_assignment_witness:
  "selectById (hunkAssignments snapshot) (compositeKey specKeys (Some ''b'') ''f'' (Some ''H1'')) = None
   \<and> reducer specKeys snapshot (CheckHunk (Some ''b'') ''f'' (Some ''H1'')) = Inr snapshot"
proof -
  have h: "selectById (hunkAssignments snapshot)
             (compositeKey specKeys (Some ''b'') ''f'' (Some ''H1'')) = None"
    by (simp add: ev)
  from h checkHunk_without_assignment[OF h] show ?thesis by simp
qed

text \<open>
  C8. \<open>checkHunk\<close> is idempotent: applying it twice with the same arguments gives the
  state that applying it once gives. This holds in every state, so in particular in the
  states that have an assignment for the key, where the first application creates or
  resets the selection.
\<close>

theorem checkHunk_idempotent:
  "checkHunk K (checkHunk K st stackId path hunkHeader) stackId path hunkHeader
     = checkHunk K st stackId path hunkHeader"
  by (simp add: checkHunk_def Let_def selectById_def upsertOne_def addOne_def
           split: option.splits)

theorem checkHunk_idempotent_witness:
  "selectById (hunkAssignments snapshot) (compositeKey specKeys (Some ''a'') ''f'' (Some ''H1''))
     = Some hunk1
   \<and> checkHunk specKeys (checkHunk specKeys snapshot (Some ''a'') ''f'' (Some ''H1''))
        (Some ''a'') ''f'' (Some ''H1'')
     = checkHunk specKeys snapshot (Some ''a'') ''f'' (Some ''H1'')
   \<and> checkHunk specKeys snapshot (Some ''a'') ''f'' (Some ''H1'') \<noteq> snapshot"
proof -
  have "selectById (hunkAssignments snapshot)
          (compositeKey specKeys (Some ''a'') ''f'' (Some ''H1'')) = Some hunk1"
    by (simp add: ev)
  moreover have "ids (hunkSelection (checkHunk specKeys snapshot (Some ''a'') ''f'' (Some ''H1'')))
                   \<noteq> ids (hunkSelection snapshot)"
    by (simp add: ev)
  then have "checkHunk specKeys snapshot (Some ''a'') ''f'' (Some ''H1'') \<noteq> snapshot"
    by auto
  ultimately show ?thesis
    using checkHunk_idempotent[of specKeys snapshot "Some ''a''" "''f''" "Some ''H1''"] by simp
qed

section \<open>Line checking\<close>

text \<open>
  C5. With no selection stored under the key of (stackId, path, hunkHeader):
  if a hunk assignment is stored under the key, \<open>checkLine\<close> adds a selection for the key
  whose only line is the given one; if none is, \<open>checkLine\<close> fails with the not-found
  error. With a selection stored under the key (in a well-formed state), \<open>checkLine\<close>
  appends the line to that selection's lines and does not fail. Nothing else of the state
  changes.
\<close>

theorem checkLine_cases:
  assumes "key = compositeKey K stackId path (Some hunkHeader)"
    and "sel = hunkSelection st"
  shows "(selectById sel key = None \<and> selectById (hunkAssignments st) key = Some assignment
            \<longrightarrow> checkLine K st stackId path hunkHeader line
                  = Inr (st\<lparr>hunkSelection :=
                            sel\<lparr>ids := ids sel @ [key],
                                entities := (entities sel)(key \<mapsto>
                                  \<lparr>stableId = a_id assignment, s_stackId = stackId,
                                   s_path = a_path assignment, assignmentId = key,
                                   lines = [line]\<rparr>)\<rparr>\<rparr>))
       \<and> (selectById sel key = None \<and> selectById (hunkAssignments st) key = None
            \<longrightarrow> checkLine K st stackId path hunkHeader line = Inl (NotFound key))
       \<and> (wf_state K st \<and> selectById sel key = Some selection
            \<longrightarrow> checkLine K st stackId path hunkHeader line
                  = Inr (st\<lparr>hunkSelection :=
                            sel\<lparr>entities := (entities sel)(key \<mapsto>
                                  selection\<lparr>lines := lines selection @ [line]\<rparr>)\<rparr>\<rparr>))"
proof (intro conjI impI)
  assume "selectById sel key = None \<and> selectById (hunkAssignments st) key = Some assignment"
  with assms show "checkLine K st stackId path hunkHeader line
                  = Inr (st\<lparr>hunkSelection :=
                            sel\<lparr>ids := ids sel @ [key],
                                entities := (entities sel)(key \<mapsto>
                                  \<lparr>stableId = a_id assignment, s_stackId = stackId,
                                   s_path = a_path assignment, assignmentId = key,
                                   lines = [line]\<rparr>)\<rparr>\<rparr>)"
    by (simp add: checkLine_def Let_def selectById_def addOne_def)
next
  assume "selectById sel key = None \<and> selectById (hunkAssignments st) key = None"
  with assms show "checkLine K st stackId path hunkHeader line = Inl (NotFound key)"
    by (simp add: checkLine_def Let_def)
next
  assume "wf_state K st \<and> selectById sel key = Some selection"
  with assms show "checkLine K st stackId path hunkHeader line
                  = Inr (st\<lparr>hunkSelection :=
                            sel\<lparr>entities := (entities sel)(key \<mapsto>
                                  selection\<lparr>lines := lines selection @ [line]\<rparr>)\<rparr>\<rparr>)"
    by (simp add: checkLine_appends)
qed

theorem checkLine_cases_witness:
  "selectById (hunkSelection snapshot) ''a|f|H1'' = None
   \<and> selectById (hunkAssignments snapshot) ''a|f|H1'' = Some hunk1
   \<and> checkLine specKeys snapshot (Some ''a'') ''f'' ''H1'' line1 = Inr (hunk1Selected [line1])
   \<and> selectById (hunkSelection snapshot) ''b|f|H1'' = None
   \<and> selectById (hunkAssignments snapshot) ''b|f|H1'' = None
   \<and> checkLine specKeys snapshot (Some ''b'') ''f'' ''H1'' line1 = Inl (NotFound ''b|f|H1'')
   \<and> wf_state specKeys (hunk1Selected [line1])
   \<and> selectById (hunkSelection (hunk1Selected [line1])) ''a|f|H1''
       = Some \<lparr>stableId = Some ''S1'', s_stackId = Some ''a'', s_path = ''f'',
               assignmentId = ''a|f|H1'', lines = [line1]\<rparr>
   \<and> checkLine specKeys (hunk1Selected [line1]) (Some ''a'') ''f'' ''H1'' line2
       = Inr (hunk1Selected [line1, line2])"
proof -
  let ?s = "\<lparr>stableId = Some ''S1'', s_stackId = Some ''a'', s_path = ''f'',
             assignmentId = ''a|f|H1'', lines = [line1]\<rparr>"
  have k2: "''b|f|H1'' = compositeKey specKeys (Some ''b'') ''f'' (Some ''H1'')"
    by (simp add: specKeys_def stackIdString_def)
  have a1: "selectById (hunkSelection snapshot) ''a|f|H1'' = None"
    and a2: "selectById (hunkAssignments snapshot) ''a|f|H1'' = Some hunk1"
    and b1: "selectById (hunkSelection snapshot) ''b|f|H1'' = None"
    and b2: "selectById (hunkAssignments snapshot) ''b|f|H1'' = None"
    by (simp_all add: ev)
  note c1 = wf_hunk1Selected[of "[line1]"]
  note c2 = hunk1Selected_selection[of "[line1]"]
  note A = checkLine_cases[OF hunk1_key refl, of snapshot hunk1 line1 ?s]
  note B = checkLine_cases[OF k2 refl, of snapshot hunk1 line1 ?s]
  note C = checkLine_cases[OF hunk1_key refl, of "hunk1Selected [line1]" hunk1 line2 ?s]
  have r1: "checkLine specKeys snapshot (Some ''a'') ''f'' ''H1'' line1
              = Inr (hunk1Selected [line1])"
    using A a1 a2 by (simp add: hunk1Selected_def ev)
  have r2: "checkLine specKeys snapshot (Some ''b'') ''f'' ''H1'' line1
              = Inl (NotFound ''b|f|H1'')"
    using B b1 b2 by simp
  have r3: "checkLine specKeys (hunk1Selected [line1]) (Some ''a'') ''f'' ''H1'' line2
              = Inr (hunk1Selected [line1, line2])"
    using C c1 c2 by (simp add: hunk1Selected_def)
  from a1 a2 b1 b2 c1 c2 r1 r2 r3 show ?thesis by blast
qed

text \<open>
  C7. When the selection stored under the key of the action references a hunk
  assignment with no hunk header (a whole-file assignment), \<open>uncheckLine\<close> fails with the
  not-implemented error; no state is returned.
\<close>

theorem uncheckLine_whole_file:
  assumes "selectById (hunkSelection st) (compositeKey K stackId path (Some hunkHeader))
             = Some selection"
    and "selectById (hunkAssignments st) (assignmentId selection) = Some assignment"
    and "a_hunkHeader assignment = None"
  shows "reducer K st (UncheckLine stackId path hunkHeader line allLinesInHunk)
           = Inl Unimplemented"
  using assms by (simp add: uncheckLine_def)

text \<open>
  The action carries a hunk header, so its key is that of a whole-file assignment only
  when the key function gives a present header and an absent one the same key. The
  scheme of the evaluations does so for a header that prints as \<open>null\<close>, which reaches
  the failure from a reachable state.
\<close>

theorem uncheckLine_whole_file_witness:
  "selectById (hunkSelection wholeFileChecked) (compositeKey specKeys (Some ''a'') ''g'' (Some ''null''))
     = Some \<lparr>stableId = None, s_stackId = Some ''a'', s_path = ''g'',
             assignmentId = ''a|g|null'', lines = []\<rparr>
   \<and> selectById (hunkAssignments wholeFileChecked) ''a|g|null'' = Some wholeFile
   \<and> a_hunkHeader wholeFile = None
   \<and> reducer specKeys wholeFileChecked (UncheckLine (Some ''a'') ''g'' ''null'' line1 [line1])
       = Inl Unimplemented"
proof -
  let ?s = "\<lparr>stableId = None, s_stackId = Some ''a'', s_path = ''g'',
             assignmentId = ''a|g|null'', lines = []\<rparr>"
  have h1: "selectById (hunkSelection wholeFileChecked)
              (compositeKey specKeys (Some ''a'') ''g'' (Some ''null'')) = Some ?s"
    by (simp add: wholeFileChecked_def ev)
  have h2: "selectById (hunkAssignments wholeFileChecked) (assignmentId ?s) = Some wholeFile"
    by (simp add: wholeFileChecked_def ev)
  have h3: "a_hunkHeader wholeFile = None"
    by (simp add: wholeFile_def)
  from h1 h2 h3 uncheckLine_whole_file[OF h1 h2 h3, of line1 "[line1]"] show ?thesis by simp
qed

text \<open>
  C2. In a well-formed state with a selection stored under the key of (stackId, path,
  hunkHeader) whose assignment has a hunk header, \<open>uncheckLine\<close> succeeds and changes
  only that selection. The remaining lines are \<open>allLinesInHunk\<close> without \<open>line\<close> when the
  selection's lines are empty (the whole hunk was selected), and the selection's lines
  without \<open>line\<close> otherwise. When no line remains the selection is removed, key and
  entity; otherwise its lines become the remaining ones.
\<close>

theorem uncheckLine_policy:
  assumes "wf_state K st"
    and "key = compositeKey K stackId path (Some hunkHeader)"
    and "selectById (hunkSelection st) key = Some selection"
    and "selectById (hunkAssignments st) (assignmentId selection) = Some assignment"
    and "a_hunkHeader assignment \<noteq> None"
    and "remaining = filter (\<lambda>l. l \<noteq> line)
           (if lines selection = [] then allLinesInHunk else lines selection)"
  shows "uncheckLine K st stackId path hunkHeader line allLinesInHunk
           = Inr (st\<lparr>hunkSelection :=
                     (if remaining = []
                      then (hunkSelection st)
                             \<lparr>ids := filter (\<lambda>k. k \<noteq> key) (ids (hunkSelection st)),
                              entities := (entities (hunkSelection st))(key := None)\<rparr>
                      else (hunkSelection st)
                             \<lparr>entities := (entities (hunkSelection st))
                                (key \<mapsto> selection\<lparr>lines := remaining\<rparr>)\<rparr>)\<rparr>)"
  using assms by (rule uncheckLine_remaining)

theorem uncheckLine_policy_witness:
  "uncheckLine specKeys (hunk1Selected []) (Some ''a'') ''f'' ''H1'' line2 [line1, line2, line3]
     = Inr (hunk1Selected [line1, line3])
   \<and> uncheckLine specKeys (hunk1Selected [line1, line3]) (Some ''a'') ''f'' ''H1'' line1 [line1, line2, line3]
     = Inr (hunk1Selected [line3])
   \<and> uncheckLine specKeys (hunk1Selected [line3]) (Some ''a'') ''f'' ''H1'' line3 [line1, line2, line3]
     = Inr snapshot
   \<and> uncheckLine specKeys (hunk1Selected []) (Some ''a'') ''f'' ''H1'' line2 [line2]
     = Inr snapshot"
proof -
  have h: "a_hunkHeader hunk1 \<noteq> None" by (simp add: hunk1_def)
  have d: "line1 \<noteq> line2" "line1 \<noteq> line3" "line2 \<noteq> line3"
    by (simp_all add: line1_def line2_def line3_def)
  have a: "\<And>ls. selectById (hunkAssignments (hunk1Selected ls))
             (assignmentId \<lparr>stableId = Some ''S1'', s_stackId = Some ''a'', s_path = ''f'',
                            assignmentId = ''a|f|H1'', lines = ls\<rparr>) = Some hunk1"
    by (simp add: hunk1Selected_assignment)
  note U = uncheckLine_policy[OF wf_hunk1Selected hunk1_key hunk1Selected_selection a h refl]
  have "uncheckLine specKeys (hunk1Selected []) (Some ''a'') ''f'' ''H1'' line2 [line1, line2, line3]
     = Inr (hunk1Selected [line1, line3])"
    using d by (subst U) (simp add: hunk1Selected_def)
  moreover have "uncheckLine specKeys (hunk1Selected [line1, line3]) (Some ''a'') ''f'' ''H1'' line1 [line1, line2, line3]
     = Inr (hunk1Selected [line3])"
    using d by (subst U) (simp add: hunk1Selected_def)
  moreover have "uncheckLine specKeys (hunk1Selected [line3]) (Some ''a'') ''f'' ''H1'' line3 [line1, line2, line3]
     = Inr snapshot"
    by (subst U) (simp add: hunk1Selected_def ev)
  moreover have "uncheckLine specKeys (hunk1Selected []) (Some ''a'') ''f'' ''H1'' line2 [line2]
     = Inr snapshot"
    by (subst U) (simp add: hunk1Selected_def ev)
  ultimately show ?thesis by blast
qed

text \<open>
  C10. \<open>checkLine\<close> does not look for duplicates. In a well-formed state whose selection
  for the key already contains the line, \<open>checkLine\<close> with that line succeeds and the
  selection's lines are the old ones with the line appended, so the line occurs once
  more than before and at least twice. A following \<open>uncheckLine\<close> of the line (the
  assignment of the key having a hunk header) succeeds and leaves no occurrence: the
  selection keeps the old lines that differ from the line, or is removed when there are
  none.
\<close>

theorem checkLine_keeps_duplicates:
  assumes wf: "wf_state K st"
    and key: "key = compositeKey K stackId path (Some hunkHeader)"
    and sel: "selectById (hunkSelection st) key = Some selection"
    and mem: "line \<in> set (lines selection)"
    and asg: "selectById (hunkAssignments st) key = Some assignment"
    and hdr: "a_hunkHeader assignment \<noteq> None"
  shows "\<exists>st1 st2.
           checkLine K st stackId path hunkHeader line = Inr st1
           \<and> selectById (hunkSelection st1) key
               = Some (selection\<lparr>lines := lines selection @ [line]\<rparr>)
           \<and> count_list (lines selection @ [line]) line = count_list (lines selection) line + 1
           \<and> 2 \<le> count_list (lines selection @ [line]) line
           \<and> uncheckLine K st1 stackId path hunkHeader line allLinesInHunk = Inr st2
           \<and> selectById (hunkSelection st2) key
               = (if filter (\<lambda>l. l \<noteq> line) (lines selection) = [] then None
                  else Some (selection\<lparr>lines := filter (\<lambda>l. l \<noteq> line) (lines selection)\<rparr>))"
proof -
  let ?s1 = "selection\<lparr>lines := lines selection @ [line]\<rparr>"
  let ?st1 = "st\<lparr>hunkSelection :=
                 (hunkSelection st)\<lparr>entities := (entities (hunkSelection st))(key \<mapsto> ?s1)\<rparr>\<rparr>"
  let ?rest = "filter (\<lambda>l. l \<noteq> line) (lines selection)"
  have c: "checkLine K st stackId path hunkHeader line = Inr ?st1"
    by (rule checkLine_appends[OF wf key sel])
  have wf1: "wf_state K ?st1"
    by (rule wf_state_checkLine[OF wf c])
  have s1: "selectById (hunkSelection ?st1) key = Some ?s1"
    by (simp add: selectById_def)
  from sel have "entities (hunkSelection st) key = Some selection"
    by (simp add: selectById_def)
  then have k: "assignmentId selection = key"
    by (rule selection_key_is_assignment(1)[OF wf])
  have a1: "selectById (hunkAssignments ?st1) (assignmentId ?s1) = Some assignment"
    using asg k by (simp add: selectById_def)
  have r: "?rest = filter (\<lambda>l. l \<noteq> line) (if lines ?s1 = [] then allLinesInHunk else lines ?s1)"
    by simp
  note u = uncheckLine_remaining[OF wf1 key s1 a1 hdr r]
  have n: "0 < count_list (lines selection) line"
    using mem count_list_0_iff[of "lines selection" line] by auto
  show ?thesis
    apply (rule exI[of _ ?st1])
    apply (rule exI)
    apply (intro conjI)
         apply (rule c)
        apply (rule s1)
       apply simp
    using n apply simp
     apply (rule u)
    apply (simp add: selectById_def)
    done
qed

theorem checkLine_keeps_duplicates_witness:
  "line1 \<in> set (lines \<lparr>stableId = Some ''S1'', s_stackId = Some ''a'', s_path = ''f'',
                        assignmentId = ''a|f|H1'', lines = [line1, line2]\<rparr>)
   \<and> checkLine specKeys (hunk1Selected [line1, line2]) (Some ''a'') ''f'' ''H1'' line1
       = Inr (hunk1Selected [line1, line2, line1])
   \<and> count_list [line1, line2, line1] line1 = 2
   \<and> uncheckLine specKeys (hunk1Selected [line1, line2, line1]) (Some ''a'') ''f'' ''H1'' line1 []
       = Inr (hunk1Selected [line2])"
proof -
  let ?s = "\<lparr>stableId = Some ''S1'', s_stackId = Some ''a'', s_path = ''f'',
             assignmentId = ''a|f|H1'', lines = [line1, line2]\<rparr>"
  have d: "line1 \<noteq> line2" by (simp add: line1_def line2_def)
  have m: "line1 \<in> set (lines ?s)" by simp
  have h: "a_hunkHeader hunk1 \<noteq> None" by (simp add: hunk1_def)
  note T = checkLine_keeps_duplicates[OF wf_hunk1Selected hunk1_key hunk1Selected_selection m
        hunk1Selected_assignment h, of "[]"]
  have c': "checkLine specKeys (hunk1Selected [line1, line2]) (Some ''a'') ''f'' ''H1'' line1
              = Inr (hunk1Selected [line1, line2, line1])"
    by (simp add: hunk1Selected_def ev)
  have u': "uncheckLine specKeys (hunk1Selected [line1, line2, line1]) (Some ''a'') ''f'' ''H1'' line1 []
              = Inr (hunk1Selected [line2])"
    using d by (simp add: hunk1Selected_def ev)
  from T m c' u' d show ?thesis by simp
qed

section \<open>Selections reference assignments\<close>

text \<open>
  C9. In every state reachable from the initial state by the reducers of the slice, a
  hunk selection is stored under its own \<open>assignmentId\<close>, and that is the key of a hunk
  assignment of the same state.
\<close>

theorem selection_references_assignment:
  assumes "reachable K st" and "selectById (hunkSelection st) key = Some selection"
  shows "assignmentId selection = key
         \<and> (\<exists>assignment. selectById (hunkAssignments st) (assignmentId selection) = Some assignment
                \<and> assignmentKey K assignment = assignmentId selection)"
proof -
  have wf: "wf_state K st" by (rule reachable_wf_state[OF assms(1)])
  from assms(2) have e: "entities (hunkSelection st) key = Some selection"
    by (simp add: selectById_def)
  note k = selection_key_is_assignment[OF wf e]
  from k(2) obtain a where a: "entities (hunkAssignments st) key = Some a" by auto
  from wf have "wf_entities (assignmentKey K) (hunkAssignments st)" by (simp add: wf_state_def)
  then have "assignmentKey K a = key" using a by (rule wf_selectId)
  with k(1) a show ?thesis by (simp add: selectById_def)
qed

theorem selection_references_assignment_witness:
  "reachable specKeys (hunk1Selected [line1])
   \<and> selectById (hunkSelection (hunk1Selected [line1])) ''a|f|H1''
       = Some \<lparr>stableId = Some ''S1'', s_stackId = Some ''a'', s_path = ''f'',
               assignmentId = ''a|f|H1'', lines = [line1]\<rparr>
   \<and> selectById (hunkAssignments (hunk1Selected [line1])) ''a|f|H1'' = Some hunk1
   \<and> assignmentKey specKeys hunk1 = ''a|f|H1''"
  using selection_references_assignment[OF reachable_hunk1Selected_line1 hunk1Selected_selection]
    reachable_hunk1Selected_line1 hunk1Selected_selection[of "[line1]"]
  by (simp add: hunk1Selected_assignment)

section \<open>Check status of folders and stacks\<close>

lemma prefixCheckStatus_cases:
  "(prefixCheckStatus K st pfx = Checked
      \<longleftrightarrow> selectByPrefix (hunkAssignments st) pfx \<noteq> [] \<and> everyMatchSelected K st pfx)
   \<and> (prefixCheckStatus K st pfx = Unchecked \<longleftrightarrow> \<not> someMatchSelected K st pfx)
   \<and> (prefixCheckStatus K st pfx = Indeterminate
      \<longleftrightarrow> someMatchSelected K st pfx \<and> \<not> everyMatchSelected K st pfx)"
  by (auto simp: prefixCheckStatus_def Let_def everyMatchSelected_def someMatchSelected_def
                 selectById_def list_all_iff list_ex_iff)

text \<open>
  C4, as amended. \<open>folderCheckStatus\<close> and \<open>stackCheckStatus\<close> return checked exactly when
  at least one hunk assignment matches the prefix and every matching assignment has a
  selection, whatever its lines; unchecked exactly when no matching assignment has a
  selection; indeterminate exactly when some but not every matching assignment has one.
\<close>

theorem folder_and_stack_status:
  "(folderCheckStatus K st stackId path = Checked
      \<longleftrightarrow> selectByPrefix (hunkAssignments st) (prefixKey K stackId path) \<noteq> []
          \<and> everyMatchSelected K st (prefixKey K stackId path))
   \<and> (folderCheckStatus K st stackId path = Unchecked
      \<longleftrightarrow> \<not> someMatchSelected K st (prefixKey K stackId path))
   \<and> (folderCheckStatus K st stackId path = Indeterminate
      \<longleftrightarrow> someMatchSelected K st (prefixKey K stackId path)
          \<and> \<not> everyMatchSelected K st (prefixKey K stackId path))
   \<and> (stackCheckStatus K st stackId = Checked
      \<longleftrightarrow> selectByPrefix (hunkAssignments st) (partialKey K stackId None) \<noteq> []
          \<and> everyMatchSelected K st (partialKey K stackId None))
   \<and> (stackCheckStatus K st stackId = Unchecked
      \<longleftrightarrow> \<not> someMatchSelected K st (partialKey K stackId None))
   \<and> (stackCheckStatus K st stackId = Indeterminate
      \<longleftrightarrow> someMatchSelected K st (partialKey K stackId None)
          \<and> \<not> everyMatchSelected K st (partialKey K stackId None))"
  unfolding folderCheckStatus_def stackCheckStatus_def
  using prefixCheckStatus_cases[of K st "prefixKey K stackId path"]
        prefixCheckStatus_cases[of K st "partialKey K stackId None"]
  by blast

theorem folder_and_stack_status_witness:
  "everyMatchSelected specKeys bothSelected (prefixKey specKeys (Some ''a'') ''f'')
   \<and> folderCheckStatus specKeys bothSelected (Some ''a'') ''f'' = Checked
   \<and> fileCheckStatus specKeys bothSelected (Some ''a'') ''f'' = Indeterminate
   \<and> someMatchSelected specKeys bothSelected (partialKey specKeys (Some ''a'') None)
   \<and> \<not> everyMatchSelected specKeys bothSelected (partialKey specKeys (Some ''a'') None)
   \<and> stackCheckStatus specKeys bothSelected (Some ''a'') = Indeterminate
   \<and> \<not> someMatchSelected specKeys snapshot (partialKey specKeys (Some ''a'') None)
   \<and> stackCheckStatus specKeys snapshot (Some ''a'') = Unchecked"
proof -
  have a: "everyMatchSelected specKeys bothSelected (prefixKey specKeys (Some ''a'') ''f'')"
    by (simp add: ev everyMatchSelected_def someMatchSelected_def)
  have n: "selectByPrefix (hunkAssignments bothSelected) (prefixKey specKeys (Some ''a'') ''f'') \<noteq> []"
    by (simp add: ev everyMatchSelected_def someMatchSelected_def)
  have f: "fileCheckStatus specKeys bothSelected (Some ''a'') ''f'' = Indeterminate"
    by (simp add: ev everyMatchSelected_def someMatchSelected_def)
  have b: "someMatchSelected specKeys bothSelected (partialKey specKeys (Some ''a'') None)"
    by (simp add: ev everyMatchSelected_def someMatchSelected_def)
  have c: "\<not> everyMatchSelected specKeys bothSelected (partialKey specKeys (Some ''a'') None)"
    by (simp add: ev everyMatchSelected_def someMatchSelected_def)
  have d: "\<not> someMatchSelected specKeys snapshot (partialKey specKeys (Some ''a'') None)"
    by (simp add: ev everyMatchSelected_def someMatchSelected_def)
  from a n f b c d
    folder_and_stack_status[of specKeys bothSelected "Some ''a''" "''f''"]
    folder_and_stack_status[of specKeys snapshot "Some ''a''" "''f''"]
  show ?thesis by blast
qed

text \<open>
  The claim as stated fails where no assignment matches the prefix: every matching
  assignment then has a selection, and the status is unchecked, not checked.
\<close>

theorem folder_and_stack_status_counterexample:
  "\<not> (folderCheckStatus specKeys (initialState :: (string, unit) UncommittedState) None ''d'' = Checked
        \<longleftrightarrow> everyMatchSelected specKeys (initialState :: (string, unit) UncommittedState)
              (prefixKey specKeys None ''d''))
   \<and> \<not> (stackCheckStatus specKeys (initialState :: (string, unit) UncommittedState) None = Checked
        \<longleftrightarrow> everyMatchSelected specKeys (initialState :: (string, unit) UncommittedState)
              (partialKey specKeys None None))"
  by (simp add: ev everyMatchSelected_def someMatchSelected_def)

section \<open>Check status of a file\<close>

lemma length_map_filter_total:
  "(\<And>x. x \<in> set xs \<Longrightarrow> f x \<noteq> None) \<Longrightarrow> length (List.map_filter f xs) = length xs"
  by (induction xs) (auto simp: map_filter_simps split: option.splits)

lemma length_selectByPrefix:
  assumes "wf_entities sid es"
  shows "length (selectByPrefix es p) = length (filter (\<lambda>k. startsWith k p) (ids es))"
  unfolding selectByPrefix_def
  using assms by (intro length_map_filter_total) (simp add: wf_ids_iff)

lemma same_length_same_set:
  assumes "distinct xs" and "distinct ys" and "set xs \<subseteq> set ys"
  shows "length xs = length ys \<longleftrightarrow> set xs = set ys"
proof
  assume "length xs = length ys"
  with assms have "card (set xs) = card (set ys)" by (simp add: distinct_card)
  with assms(3) show "set xs = set ys" by (simp add: card_subset_eq)
next
  assume "set xs = set ys"
  then have "card (set xs) = card (set ys)" by simp
  with assms show "length xs = length ys" by (simp add: distinct_card)
qed

text \<open>
  C3, as amended. In a well-formed state, \<open>fileCheckStatus\<close> returns checked exactly when
  at least one hunk assignment is stored under the (stackId, path) prefix and every
  assignment under it has a selection with an empty line set; unchecked exactly when no
  selection is stored under the prefix; and indeterminate in every other case. The three
  results are the constructors of one datatype, so exactly one of them is returned.
\<close>

theorem file_status:
  assumes wf: "wf_state K st" and pfx: "pfx = partialKey K stackId (Some path)"
  shows "(fileCheckStatus K st stackId path = Checked
            \<longleftrightarrow> someAssignmentUnder st pfx \<and> everyAssignmentWholeSelected st pfx)
         \<and> (fileCheckStatus K st stackId path = Unchecked \<longleftrightarrow> \<not> someSelectionUnder st pfx)
         \<and> (fileCheckStatus K st stackId path = Indeterminate
            \<longleftrightarrow> someSelectionUnder st pfx
                \<and> \<not> (someAssignmentUnder st pfx \<and> everyAssignmentWholeSelected st pfx))"
proof -
  let ?P = "\<lambda>k. startsWith k pfx"
  let ?S = "filter ?P (ids (hunkSelection st))"
  let ?A = "filter ?P (ids (hunkAssignments st))"
  from wf have ws: "wf_entities assignmentId (hunkSelection st)"
    and wa: "wf_entities (assignmentKey K) (hunkAssignments st)"
    and sub: "set (ids (hunkSelection st)) \<subseteq> set (ids (hunkAssignments st))"
    by (simp_all add: wf_state_def)
  have dS: "distinct ?S" and dA: "distinct ?A"
    using ws wa by (simp_all add: wf_entities_def)
  have SA: "set ?S \<subseteq> set ?A" using sub by auto
  have len: "length (selectByPrefix (hunkSelection st) pfx) = length ?S"
    "length (selectByPrefix (hunkAssignments st) pfx) = length ?A"
    by (simp_all add: length_selectByPrefix[OF ws] length_selectByPrefix[OF wa])
  have eq: "length ?S = length ?A \<longleftrightarrow> set ?S = set ?A"
    by (rule same_length_same_set[OF dS dA SA])
  have whole: "list_all (\<lambda>s. length (lines s) = 0) (selectByPrefix (hunkSelection st) pfx)
                 \<longleftrightarrow> (\<forall>k \<in> set ?S. \<forall>s. entities (hunkSelection st) k = Some s \<longrightarrow> lines s = [])"
    by (auto simp: list_all_iff in_selectByPrefix)
  have unch: "?S = [] \<longleftrightarrow> \<not> someSelectionUnder st pfx"
    by (auto simp: someSelectionUnder_def filter_empty_conv)
  have chk: "(?S \<noteq> [] \<and> set ?S = set ?A
               \<and> (\<forall>k \<in> set ?S. \<forall>s. entities (hunkSelection st) k = Some s \<longrightarrow> lines s = []))
             \<longleftrightarrow> someAssignmentUnder st pfx \<and> everyAssignmentWholeSelected st pfx"
    (is "?L \<longleftrightarrow> ?R")
  proof
    assume L: ?L
    then have "?S \<noteq> []" and e: "set ?S = set ?A" by blast+
    then obtain k where "k \<in> set ?S" by (cases ?S) auto
    with e have "k \<in> set ?A" by blast
    then have some: "someAssignmentUnder st pfx"
      by (auto simp: someAssignmentUnder_def)
    have "everyAssignmentWholeSelected st pfx"
      unfolding everyAssignmentWholeSelected_def selectById_def
    proof (intro ballI impI)
      fix k assume "k \<in> set (ids (hunkAssignments st))" and "startsWith k pfx"
      then have "k \<in> set ?A" by simp
      with e have "k \<in> set ?S" by blast
      then have "entities (hunkSelection st) k \<noteq> None" using ws by (simp add: wf_ids_iff)
      with L \<open>k \<in> set ?S\<close>
      show "case entities (hunkSelection st) k of None \<Rightarrow> False | Some s \<Rightarrow> lines s = []"
        by (auto split: option.splits)
    qed
    with some show ?R by simp
  next
    assume R: ?R
    have "set ?A \<subseteq> set ?S"
    proof
      fix k assume k: "k \<in> set ?A"
      with R have "entities (hunkSelection st) k \<noteq> None"
        by (auto simp: everyAssignmentWholeSelected_def selectById_def split: option.splits)
      then have "k \<in> set (ids (hunkSelection st))" using ws by (simp add: wf_ids_iff)
      with k show "k \<in> set ?S" by simp
    qed
    with SA have e: "set ?S = set ?A" by auto
    from R obtain k where "k \<in> set ?A" by (auto simp: someAssignmentUnder_def)
    with e have "k \<in> set ?S" by blast
    then have ne: "?S \<noteq> []" by (cases ?S) auto
    have "\<forall>k \<in> set ?S. \<forall>s. entities (hunkSelection st) k = Some s \<longrightarrow> lines s = []"
    proof (intro ballI allI impI)
      fix k s assume "k \<in> set ?S" and s: "entities (hunkSelection st) k = Some s"
      then have "k \<in> set (ids (hunkAssignments st))" and "startsWith k pfx" using SA by auto
      with R s show "lines s = []"
        by (auto simp: everyAssignmentWholeSelected_def selectById_def split: option.splits)
    qed
    with e ne show ?L by blast
  qed
  have st: "fileCheckStatus K st stackId path
              = (if ?S = [] then Unchecked
                 else if set ?S = set ?A
                         \<and> (\<forall>k \<in> set ?S. \<forall>s. entities (hunkSelection st) k = Some s \<longrightarrow> lines s = [])
                 then Checked else Indeterminate)"
    unfolding fileCheckStatus_def Let_def pfx[symmetric] len whole eq by simp
  show ?thesis
    unfolding st using chk unch by auto
qed

theorem file_status_witness:
  "wf_state specKeys wholeSelected
   \<and> someAssignmentUnder wholeSelected (partialKey specKeys (Some ''a'') (Some ''f''))
   \<and> everyAssignmentWholeSelected wholeSelected (partialKey specKeys (Some ''a'') (Some ''f''))
   \<and> fileCheckStatus specKeys wholeSelected (Some ''a'') ''f'' = Checked
   \<and> wf_state specKeys (hunk1Selected [])
   \<and> someSelectionUnder (hunk1Selected []) (partialKey specKeys (Some ''a'') (Some ''f''))
   \<and> \<not> everyAssignmentWholeSelected (hunk1Selected []) (partialKey specKeys (Some ''a'') (Some ''f''))
   \<and> fileCheckStatus specKeys (hunk1Selected []) (Some ''a'') ''f'' = Indeterminate
   \<and> wf_state specKeys bothSelected
   \<and> someSelectionUnder bothSelected (partialKey specKeys (Some ''a'') (Some ''f''))
   \<and> \<not> everyAssignmentWholeSelected bothSelected (partialKey specKeys (Some ''a'') (Some ''f''))
   \<and> fileCheckStatus specKeys bothSelected (Some ''a'') ''f'' = Indeterminate
   \<and> wf_state specKeys snapshot
   \<and> \<not> someSelectionUnder snapshot (partialKey specKeys (Some ''a'') (Some ''f''))
   \<and> fileCheckStatus specKeys snapshot (Some ''a'') ''f'' = Unchecked"
proof -
  let ?p = "partialKey specKeys (Some ''a'') (Some ''f'')"
  have w1: "wf_state specKeys wholeSelected"
    unfolding wholeSelected_def by (rule wf_state_checkHunk[OF wf_hunk1Selected])
  have w2: "wf_state specKeys (hunk1Selected [])" by (rule wf_hunk1Selected)
  have w3: "wf_state specKeys bothSelected"
    unfolding bothSelected_def by (rule wf_state_checkHunk[OF wf_hunk1Selected])
  have a1: "someAssignmentUnder wholeSelected ?p" by (simp add: ev wholeSelected_def someAssignmentUnder_def someSelectionUnder_def
          everyAssignmentWholeSelected_def)
  have a2: "everyAssignmentWholeSelected wholeSelected ?p" by (simp add: ev wholeSelected_def someAssignmentUnder_def someSelectionUnder_def
          everyAssignmentWholeSelected_def)
  have b1: "someSelectionUnder (hunk1Selected []) ?p" by (simp add: ev wholeSelected_def someAssignmentUnder_def someSelectionUnder_def
          everyAssignmentWholeSelected_def)
  have b2: "\<not> everyAssignmentWholeSelected (hunk1Selected []) ?p" by (simp add: ev wholeSelected_def someAssignmentUnder_def someSelectionUnder_def
          everyAssignmentWholeSelected_def)
  have c1: "someSelectionUnder bothSelected ?p" by (simp add: ev wholeSelected_def someAssignmentUnder_def someSelectionUnder_def
          everyAssignmentWholeSelected_def)
  have c2: "\<not> everyAssignmentWholeSelected bothSelected ?p" by (simp add: ev wholeSelected_def someAssignmentUnder_def someSelectionUnder_def
          everyAssignmentWholeSelected_def)
  have d1: "\<not> someSelectionUnder snapshot ?p" by (simp add: ev wholeSelected_def someAssignmentUnder_def someSelectionUnder_def
          everyAssignmentWholeSelected_def)
  from w1 w2 w3 wf_snapshot a1 a2 b1 b2 c1 c2 d1
    file_status[OF w1 refl, of "Some ''a''" "''f''"]
    file_status[OF w2 refl, of "Some ''a''" "''f''"]
    file_status[OF w3 refl, of "Some ''a''" "''f''"]
    file_status[OF wf_snapshot refl, of "Some ''a''" "''f''"]
  show ?thesis by blast
qed

text \<open>
  The claim as stated fails where no assignment is stored under the prefix: every
  assignment under it is then selected as a whole, and the status is unchecked.
\<close>

theorem file_status_counterexample:
  "\<not> (fileCheckStatus specKeys (initialState :: (string, unit) UncommittedState) None ''f'' = Checked
        \<longleftrightarrow> everyAssignmentWholeSelected (initialState :: (string, unit) UncommittedState)
              (partialKey specKeys None (Some ''f'')))"
  by (simp add: ev wholeSelected_def someAssignmentUnder_def someSelectionUnder_def
          everyAssignmentWholeSelected_def)

section \<open>Snapshot replacement\<close>

lemma find_app:
  "List.find P (xs @ ys) = (case List.find P xs of None \<Rightarrow> List.find P ys | Some x \<Rightarrow> Some x)"
  by (induction xs) auto

lemma fold_upd_find:
  "fold (\<lambda>a m. m(f a \<mapsto> a)) xs m0 k
     = (case List.find (\<lambda>a. f a = k) (rev xs) of None \<Rightarrow> m0 k | Some a \<Rightarrow> Some a)"
  by (induction xs arbitrary: m0) (auto simp: find_app split: option.splits)

lemma newAssignmentsMap_find:
  "newAssignmentsMap K assignments k
     = List.find (\<lambda>a. orElse (a_id a) (assignmentKey K a) = k) (rev assignments)"
  unfolding newAssignmentsMap_def by (simp add: fold_upd_find split: option.splits)

lemma entities_addMany:
  "entities (addMany sid es xs) k
     = (case entities es k of None \<Rightarrow> List.find (\<lambda>x. sid x = k) xs | Some v \<Rightarrow> Some v)"
  unfolding addMany_def
  by (induction xs arbitrary: es) (auto simp: entities_addOne split: option.splits)

lemma selectById_addMany_initial:
  "selectById (addMany sid getInitialState xs) k = List.find (\<lambda>x. sid x = k) xs"
  by (simp add: selectById_def entities_addMany) (simp add: getInitialState_def)

lemma set_ids_addMany_initial: "set (ids (addMany sid getInitialState xs)) = sid ` set xs"
  by (simp add: set_ids_addMany wf_entities_init) (simp add: getInitialState_def)

lemma find_filter:
  "(\<And>x. P x \<Longrightarrow> Q x) \<Longrightarrow> List.find P (filter Q xs) = List.find P xs"
  by (induction xs) auto

lemma selectById_addManyPlain_initial:
  assumes "k \<notin> set objectPrototypeNames"
  shows "selectById (addManyPlain sid getInitialState xs) k = List.find (\<lambda>x. sid x = k) xs"
proof -
  have "List.find (\<lambda>x. sid x = k) (filter (\<lambda>x. sid x \<notin> set objectPrototypeNames) xs)
          = List.find (\<lambda>x. sid x = k) xs"
    using assms by (intro find_filter) simp
  then show ?thesis by (simp add: addManyPlain_addMany selectById_addMany_initial)
qed

lemma ids_addManyPlain_initial:
  assumes "k \<notin> set objectPrototypeNames"
  shows "k \<in> set (ids (addManyPlain sid getInitialState xs)) \<longleftrightarrow> k \<in> sid ` set xs"
  using assms by (auto simp: addManyPlain_addMany set_ids_addMany_initial)

lemma relinkAll_Nil: "relinkAll K g [] sel = sel"
  by (simp add: relinkAll_def)

lemma relinkAll_Cons:
  "relinkAll K g (old # olds) sel
     = relinkAll K g olds
         (case g old of None \<Rightarrow> sel | Some a \<Rightarrow> addOne assignmentId sel (relinked K a))"
  by (simp add: relinkAll_def)

lemma relinkAll_persist:
  "entities sel k = Some s \<Longrightarrow> entities (relinkAll K g olds sel) k = Some s"
  by (induction olds arbitrary: sel)
     (auto simp: relinkAll_Nil relinkAll_Cons entities_addOne split: option.splits)

lemma relinkAll_origin:
  "entities (relinkAll K g olds sel) k = Some s \<Longrightarrow>
   entities sel k = Some s
   \<or> (\<exists>old \<in> set olds. \<exists>a. g old = Some a \<and> s = relinked K a \<and> k = assignmentKey K a)"
proof (induction olds arbitrary: sel)
  case Nil
  then show ?case by (simp add: relinkAll_Nil)
next
  case (Cons old olds)
  show ?case
  proof (cases "g old")
    case None
    with Cons.IH[of sel] Cons.prems show ?thesis by (auto simp: relinkAll_Cons)
  next
    case (Some a)
    with Cons.prems
    have "entities (relinkAll K g olds (addOne assignmentId sel (relinked K a))) k = Some s"
      by (simp add: relinkAll_Cons)
    from Cons.IH[OF this] Some show ?thesis
      by (auto simp: entities_addOne relinked_def split: if_splits)
  qed
qed

lemma wholeOnly_addOne: "wholeOnly sel \<Longrightarrow> wholeOnly (addOne assignmentId sel (relinked K a))"
  by (auto simp: wholeOnly_def entities_addOne relinked_def split: if_splits)

lemma relinkAll_target:
  assumes "wholeOnly sel" and "old \<in> set olds" and "g old = Some a"
  shows "\<exists>s. entities (relinkAll K g olds sel) (assignmentKey K a) = Some s
             \<and> assignmentId s = assignmentKey K a \<and> lines s = []"
  using assms
proof (induction olds arbitrary: sel)
  case Nil
  then show ?case by simp
next
  case (Cons x olds)
  let ?sel1 = "case g x of None \<Rightarrow> sel | Some b \<Rightarrow> addOne assignmentId sel (relinked K b)"
  have w1: "wholeOnly ?sel1"
    using Cons.prems(1) by (auto simp: wholeOnly_addOne split: option.splits)
  show ?case
  proof (cases "old = x")
    case True
    with Cons.prems(3) have s1: "?sel1 = addOne assignmentId sel (relinked K a)" by simp
    have "entities ?sel1 (assignmentKey K a) \<noteq> None"
      unfolding s1 by (auto simp: entities_addOne relinked_def)
    then obtain s where s: "entities ?sel1 (assignmentKey K a) = Some s" by auto
    with w1 have "assignmentId s = assignmentKey K a \<and> lines s = []"
      by (simp add: wholeOnly_def)
    with relinkAll_persist[OF s, of K g olds] show ?thesis
      by (auto simp: relinkAll_Cons)
  next
    case False
    with Cons.prems(2) have "old \<in> set olds" by simp
    from Cons.IH[OF w1 this Cons.prems(3)] show ?thesis by (simp add: relinkAll_Cons)
  qed
qed

lemma hunkSelection_updateAssignments:
  "hunkSelection (updateAssignments K st assignments changes)
     = relinkAll K (relinkTarget K assignments) (selectAll (hunkSelection st))
         (removeAll (hunkSelection st))"
  by (simp add: updateAssignments_def Let_def relinkAll_def relinkTarget_def
                newAssignmentsMap_find)

lemma find_exists: "x \<in> set xs \<Longrightarrow> P x \<Longrightarrow> List.find P xs \<noteq> None"
  by (auto simp: find_None_iff)

text \<open>
  A tree change whose path is an inherited name of a plain object is not stored: the
  adapter finds the name in the empty dictionary.
\<close>

lemma update_ignores_inherited_path:
  "treeChanges (updateAssignments specKeys (initialState :: (string, unit) UncommittedState) []
     [\<lparr>tc_path = ''constructor'', tc_status = ()\<rparr>]) = getInitialState"
  by (simp add: updateAssignments_def addManyPlain_def addOnePlain_def objectPrototypeNames_def
                Let_def)

text \<open>
  C1, as amended. After \<open>update\<close> the hunk assignments are those of the action alone:
  the ids are the composite keys of the given assignments, and a lookup returns the first
  given assignment with that key. So are the tree changes, for every path that is not an
  inherited name of a plain object: such a path is an id exactly when a given change has
  it, and a lookup returns the first given change with it. Of a path that is an inherited
  name nothing is stated. The hunk selections are re-derived from the old ones. An old
  selection is re-linked to the last new
  assignment found under its stable id, or under its \<open>assignmentId\<close> when it has no
  stable id, where a new assignment is found under its stable id, or under its composite
  key when it has none. If there is such an assignment, a selection with that
  assignment's composite key as \<open>assignmentId\<close> and with no lines is stored under that
  key afterwards. Every selection stored afterwards is the re-linking of an old
  selection, so an old selection with no such assignment leaves none. An old selection
  with a non-empty stable id that some new assignment carries is always re-linked.
\<close>

theorem update_replaces_snapshot:
  assumes "st' = updateAssignments K st assignments changes"
  shows "(\<forall>p. p \<notin> set objectPrototypeNames \<longrightarrow>
               (p \<in> set (ids (treeChanges st')) \<longleftrightarrow> p \<in> tc_path ` set changes))
         \<and> (\<forall>p. p \<notin> set objectPrototypeNames \<longrightarrow>
               selectById (treeChanges st') p = List.find (\<lambda>c. tc_path c = p) changes)
         \<and> set (ids (hunkAssignments st')) = assignmentKey K ` set assignments
         \<and> (\<forall>k. selectById (hunkAssignments st') k
                  = List.find (\<lambda>a. assignmentKey K a = k) assignments)
         \<and> (\<forall>old \<in> set (selectAll (hunkSelection st)). \<forall>a.
               relinkTarget K assignments old = Some a \<longrightarrow>
                 (\<exists>s. selectById (hunkSelection st') (assignmentKey K a) = Some s
                      \<and> assignmentId s = assignmentKey K a \<and> lines s = []))
         \<and> (\<forall>k s. selectById (hunkSelection st') k = Some s \<longrightarrow>
               (\<exists>old \<in> set (selectAll (hunkSelection st)). \<exists>a.
                   relinkTarget K assignments old = Some a
                   \<and> s = relinked K a \<and> k = assignmentKey K a))
         \<and> (\<forall>old \<in> set (selectAll (hunkSelection st)). \<forall>sid.
               stableId old = Some sid \<and> sid \<noteq> [] \<and> (\<exists>a \<in> set assignments. a_id a = Some sid)
                 \<longrightarrow> relinkTarget K assignments old \<noteq> None)"
proof (intro conjI)
  show "\<forall>p. p \<notin> set objectPrototypeNames \<longrightarrow>
               (p \<in> set (ids (treeChanges st')) \<longleftrightarrow> p \<in> tc_path ` set changes)"
    by (simp add: assms updateAssignments_def Let_def ids_addManyPlain_initial)
  show "\<forall>p. p \<notin> set objectPrototypeNames \<longrightarrow>
               selectById (treeChanges st') p = List.find (\<lambda>c. tc_path c = p) changes"
    by (simp add: assms updateAssignments_def Let_def selectById_addManyPlain_initial)
  show "set (ids (hunkAssignments st')) = assignmentKey K ` set assignments"
    by (simp add: assms updateAssignments_def Let_def set_ids_addMany_initial)
  show "\<forall>k. selectById (hunkAssignments st') k
                  = List.find (\<lambda>a. assignmentKey K a = k) assignments"
    by (simp add: assms updateAssignments_def Let_def selectById_addMany_initial)
  have w: "wholeOnly (removeAll (hunkSelection st))"
    by (simp add: wholeOnly_def removeAll_def)
  show "\<forall>old \<in> set (selectAll (hunkSelection st)). \<forall>a.
               relinkTarget K assignments old = Some a \<longrightarrow>
                 (\<exists>s. selectById (hunkSelection st') (assignmentKey K a) = Some s
                      \<and> assignmentId s = assignmentKey K a \<and> lines s = [])"
    unfolding assms hunkSelection_updateAssignments selectById_def
    by (intro ballI allI impI) (rule relinkAll_target[OF w])
  show "\<forall>k s. selectById (hunkSelection st') k = Some s \<longrightarrow>
               (\<exists>old \<in> set (selectAll (hunkSelection st)). \<exists>a.
                   relinkTarget K assignments old = Some a
                   \<and> s = relinked K a \<and> k = assignmentKey K a)"
    unfolding assms hunkSelection_updateAssignments selectById_def
  proof (intro allI impI)
    fix k s
    assume "entities (relinkAll K (relinkTarget K assignments) (selectAll (hunkSelection st))
                       (removeAll (hunkSelection st))) k = Some s"
    from relinkAll_origin[OF this]
    show "\<exists>old \<in> set (selectAll (hunkSelection st)). \<exists>a.
             relinkTarget K assignments old = Some a \<and> s = relinked K a \<and> k = assignmentKey K a"
      by (simp add: removeAll_def)
  qed
  show "\<forall>old \<in> set (selectAll (hunkSelection st)). \<forall>sid.
               stableId old = Some sid \<and> sid \<noteq> [] \<and> (\<exists>a \<in> set assignments. a_id a = Some sid)
                 \<longrightarrow> relinkTarget K assignments old \<noteq> None"
  proof (intro ballI allI impI)
    fix old :: HunkSelection and sid
    assume "stableId old = Some sid \<and> sid \<noteq> [] \<and> (\<exists>a \<in> set assignments. a_id a = Some sid)"
    then obtain a where "a \<in> set (rev assignments)" and "a_id a = Some sid"
      and "stableId old = Some sid" and "sid \<noteq> []" by auto
    then show "relinkTarget K assignments old \<noteq> None"
      unfolding relinkTarget_def by (intro find_exists[of a]) (simp_all add: orElse_def)
  qed
qed

theorem update_replaces_snapshot_witness:
  "selectAll (hunkSelection bothSelected)
     = [\<lparr>stableId = Some ''S1'', s_stackId = Some ''a'', s_path = ''f'',
         assignmentId = ''a|f|H1'', lines = [line1]\<rparr>,
        \<lparr>stableId = Some ''S2'', s_stackId = Some ''a'', s_path = ''f'',
         assignmentId = ''a|f|H2'', lines = []\<rparr>]
   \<and> relinkTarget specKeys [hunk1Moved]
         \<lparr>stableId = Some ''S1'', s_stackId = Some ''a'', s_path = ''f'',
          assignmentId = ''a|f|H1'', lines = [line1]\<rparr> = Some hunk1Moved
   \<and> relinkTarget specKeys [hunk1Moved]
         \<lparr>stableId = Some ''S2'', s_stackId = Some ''a'', s_path = ''f'',
          assignmentId = ''a|f|H2'', lines = []\<rparr> = None
   \<and> selectById (hunkSelection (updateAssignments specKeys bothSelected [hunk1Moved] [changeF]))
         ''a|f|H9''
       = Some \<lparr>stableId = Some ''S1'', s_stackId = Some ''a'', s_path = ''f'',
               assignmentId = ''a|f|H9'', lines = []\<rparr>
   \<and> ids (hunkSelection (updateAssignments specKeys bothSelected [hunk1Moved] [changeF]))
       = [''a|f|H9'']
   \<and> ids (hunkAssignments (updateAssignments specKeys bothSelected [hunk1Moved] [changeF]))
       = [''a|f|H9'']
   \<and> ids (treeChanges (updateAssignments specKeys bothSelected [hunk1Moved] [changeF])) = [''f'']
   \<and> ''f'' \<notin> set objectPrototypeNames
   \<and> selectById (treeChanges (updateAssignments specKeys bothSelected [hunk1Moved] [changeF])) ''f''
       = Some changeF"
proof -
  let ?s1 = "\<lparr>stableId = Some ''S1'', s_stackId = Some ''a'', s_path = ''f'',
              assignmentId = ''a|f|H1'', lines = [line1]\<rparr>"
  let ?s2 = "\<lparr>stableId = Some ''S2'', s_stackId = Some ''a'', s_path = ''f'',
              assignmentId = ''a|f|H2'', lines = []\<rparr>"
  let ?st' = "updateAssignments specKeys bothSelected [hunk1Moved] [changeF]"
  have a: "selectAll (hunkSelection bothSelected) = [?s1, ?s2]"
    by (simp add: ev relinkTarget_def hunk1Moved_def movedFile_def changeF_def)
  have t1: "relinkTarget specKeys [hunk1Moved] ?s1 = Some hunk1Moved"
    by (simp add: ev relinkTarget_def hunk1Moved_def movedFile_def changeF_def)
  have t2: "relinkTarget specKeys [hunk1Moved] ?s2 = None"
    by (simp add: ev relinkTarget_def hunk1Moved_def movedFile_def changeF_def)
  have k: "assignmentKey specKeys hunk1Moved = ''a|f|H9''"
    by (simp add: ev relinkTarget_def hunk1Moved_def movedFile_def changeF_def)
  have i: "ids (hunkSelection ?st') = [''a|f|H9'']" "ids (hunkAssignments ?st') = [''a|f|H9'']"
    "ids (treeChanges ?st') = [''f'']"
    by (simp_all add: ev relinkTarget_def hunk1Moved_def movedFile_def changeF_def)
  note T = update_replaces_snapshot[OF refl, of specKeys bothSelected "[hunk1Moved]" "[changeF]"]
  from T have "\<forall>k s. selectById (hunkSelection ?st') k = Some s \<longrightarrow>
               (\<exists>old \<in> set (selectAll (hunkSelection bothSelected)). \<exists>a.
                   relinkTarget specKeys [hunk1Moved] old = Some a
                   \<and> s = relinked specKeys a \<and> k = assignmentKey specKeys a)"
    by blast
  moreover from T a t1 k obtain s where "selectById (hunkSelection ?st') ''a|f|H9'' = Some s"
    by fastforce
  ultimately have "selectById (hunkSelection ?st') ''a|f|H9'' = Some (relinked specKeys hunk1Moved)"
    using a t1 t2 by fastforce
  then have r: "selectById (hunkSelection ?st') ''a|f|H9''
                  = Some \<lparr>stableId = Some ''S1'', s_stackId = Some ''a'', s_path = ''f'',
                          assignmentId = ''a|f|H9'', lines = []\<rparr>"
    by (simp add: relinked_def k) (simp add: hunk1Moved_def)
  have p: "''f'' \<notin> set objectPrototypeNames"
    by (simp add: objectPrototypeNames_def)
  from T p have "selectById (treeChanges ?st') ''f''
                   = List.find (\<lambda>c. tc_path c = ''f'') [changeF]"
    by blast
  then have c: "selectById (treeChanges ?st') ''f'' = Some changeF"
    by (simp add: changeF_def)
  from a t1 t2 r i p c show ?thesis by blast
qed

text \<open>
  The claim as stated fails for a selection with no stable id. Re-linked through its
  \<open>assignmentId\<close>, it survives an update whose only assignment has no stable id and the
  same composite key; and it is dropped by an update whose only assignment has no stable
  id either, but another composite key.
\<close>

theorem update_replaces_snapshot_counterexample:
  "selectAll (hunkSelection wholeFileChecked)
     = [\<lparr>stableId = None, s_stackId = Some ''a'', s_path = ''g'',
         assignmentId = ''a|g|null'', lines = []\<rparr>]
   \<and> a_id wholeFile = None
   \<and> selectAll (hunkSelection (updateAssignments specKeys wholeFileChecked [wholeFile] []))
       = [\<lparr>stableId = None, s_stackId = Some ''a'', s_path = ''g'',
           assignmentId = ''a|g|null'', lines = []\<rparr>]
   \<and> a_id movedFile = None
   \<and> selectAll (hunkSelection (updateAssignments specKeys wholeFileChecked [movedFile] [])) = []"
  by (simp add: ev relinkTarget_def hunk1Moved_def movedFile_def changeF_def)

end
